theory Spec2Isabelle
  imports Main "HOL-Library.Word"
begin

section \<open>The streaming agent: data model\<close>

text \<open>
  The agent of \<^verbatim>\<open>internal/agent\<close> is one Go struct that holds pointers: to the
  connection, to the two streams, to the configuration and to the active capturer.
  Pointers are references (natural numbers) into explicit stores, so that aliasing is
  visible; \<open>None\<close> is Go's \<open>nil\<close>. The mutexes \<open>mu\<close> and \<open>capMu\<close>, the logger
  and the cancel function are left out of the record: every operation is modelled as it
  runs from its lock to its unlock with no other goroutine in between.
\<close>

type_synonym ref = nat
type_synonym bytes = "8 word list"

text \<open>
  Go's \<open>error\<close> values: the two sentinels of package \<open>context\<close>, and any other
  error (of the transport, the screen grabber or an encoder), told apart by a number.
\<close>

datatype error = Canceled | DeadlineExceeded | OtherError nat

definition GRPC_CONNECT_MAX_ATTEMPTS :: nat where "GRPC_CONNECT_MAX_ATTEMPTS = 5"
definition GRPC_RETRY_DELAY_MS :: nat where "GRPC_RETRY_DELAY_MS = 1000"
definition INITIAL_FRAME_IS_PREVIEW :: bool where "INITIAL_FRAME_IS_PREVIEW = True"
definition INITIAL_EVENT_TYPE :: string where "INITIAL_EVENT_TYPE = ''agent_init''"
definition INITIAL_EVENT_DETAIL :: string where
  "INITIAL_EVENT_DETAIL = ''agent started and streams opened''"
definition STREAM_REOPEN_MAX_ATTEMPTS :: nat where "STREAM_REOPEN_MAX_ATTEMPTS = 3"
definition STREAM_REOPEN_DELAY_MS :: nat where "STREAM_REOPEN_DELAY_MS = 500"

record FrameData =
  frameAgentId :: string
  frameImageData :: bytes
  frameTimestamp :: int
  frameIsPreview :: bool

record EventData =
  eventAgentId :: string
  eventType :: string
  eventDetail :: string
  eventTimestamp :: int

datatype message = Frame FrameData | Event EventData

record Config =
  ServerAddr :: string
  CaptureIntervalMs :: int
  TargetFPS :: int
  FrameWidth :: int
  FrameHeight :: int
  MonitorMode :: string
  MonitorIndex :: int
  CaptureEncoding :: string
  JpegQuality :: int
  ForcePreview :: bool

record dummyCapturer =
  width :: int
  height :: int

record screenshotCapturer =
  mode :: string
  monitorIndex :: int
  encoding :: string
  jpegQuality :: int

text \<open>
  The interface value \<open>screenCapturer\<close> held by the agent: a pointer to a dummy
  capturer or a pointer to a screenshot capturer.
\<close>

datatype screenCapturer = DummyPtr ref | ScreenshotPtr ref

record Agent =
  ctx :: "ref option"
  grpcConn :: "ref option"
  agentClient :: "ref option"
  frameStream :: "ref option"
  eventStream :: "ref option"
  agentID :: string
  hostname :: string
  cfg :: ref
  capturer :: screenCapturer
  captureStopCh :: "ref option"

text \<open>
  The store of the objects the agent points to. Each kind of object has its own address
  space; \<open>nShots\<close>, \<open>nDummies\<close> and \<open>nChans\<close> are the next free addresses, so an
  object is allocated when its address is below the counter. \<open>closed c\<close> says that
  channel \<open>c\<close> has been closed; \<open>loops\<close> lists the stop channel of every capture
  loop goroutine that was ever launched.
\<close>

record Heap =
  configs :: "ref \<Rightarrow> Config"
  shots :: "ref \<Rightarrow> screenshotCapturer"
  nShots :: nat
  dummies :: "ref \<Rightarrow> dummyCapturer"
  nDummies :: nat
  closed :: "ref \<Rightarrow> bool"
  nChans :: nat
  loops :: "ref list"

section \<open>The network as the agent sees it\<close>

text \<open>
  Everything outside the process is an oracle: the outcome of the \<open>k\<close>-th dial, of the
  \<open>k\<close>-th stream open, of the \<open>k\<close>-th \<open>Send\<close>, and which case the \<open>k\<close>-th
  \<open>select\<close> between the timer and \<open>ctx.Done()\<close> takes. The counters say how many
  calls of each kind were made, and \<open>trace\<close> records the calls in order, the logger's
  among them (a log call is recorded by its level). \<open>ctxErr\<close> is what \<open>ctx.Err()\<close>
  reports once the context is done, \<open>nowMs\<close> the reading of
  \<open>time.Now().UnixMilli()\<close>. Where both cases of a \<open>select\<close> are ready Go takes
  either, and so may the oracle. The session context itself is taken to be non-nil in
  this part, as \<open>startup\<close> builds it.
\<close>

datatype level = Info | Warn | Error

datatype event =
  EvDial string
  | EvOpenFrames
  | EvOpenEvents
  | EvSend ref message
  | EvWait nat
  | EvLog level

record World =
  dialRes :: "nat \<Rightarrow> error option"
  openRes :: "nat \<Rightarrow> error option"
  sendRes :: "nat \<Rightarrow> error option"
  doneFirst :: "nat \<Rightarrow> bool"
  ctxErr :: error
  nowMs :: int
  nDial :: nat
  nOpen :: nat
  nSend :: nat
  nWait :: nat
  trace :: "event list"

definition logf :: "level \<Rightarrow> World \<Rightarrow> World" where
  "logf l w = w\<lparr>trace := trace w @ [EvLog l]\<rparr>"

text \<open>\<open>grpc.DialContext\<close> with \<open>WithBlock\<close>: an error, or a new connection.\<close>

definition DialContext :: "string \<Rightarrow> World \<Rightarrow> (error + ref) \<times> World" where
  "DialContext addr w =
     ((case dialRes w (nDial w) of Some e \<Rightarrow> Inl e | None \<Rightarrow> Inr (nDial w)),
      w\<lparr>nDial := Suc (nDial w), trace := trace w @ [EvDial addr]\<rparr>)"

text \<open>\<open>client.StreamFrames(ctx)\<close> and \<open>client.StreamEvents(ctx)\<close>: an error, or a
  new stream handle.\<close>

definition StreamFrames :: "World \<Rightarrow> (error + ref) \<times> World" where
  "StreamFrames w =
     ((case openRes w (nOpen w) of Some e \<Rightarrow> Inl e | None \<Rightarrow> Inr (nOpen w)),
      w\<lparr>nOpen := Suc (nOpen w), trace := trace w @ [EvOpenFrames]\<rparr>)"

definition StreamEvents :: "World \<Rightarrow> (error + ref) \<times> World" where
  "StreamEvents w =
     ((case openRes w (nOpen w) of Some e \<Rightarrow> Inl e | None \<Rightarrow> Inr (nOpen w)),
      w\<lparr>nOpen := Suc (nOpen w), trace := trace w @ [EvOpenEvents]\<rparr>)"

text \<open>\<open>stream.Send(msg)\<close>: \<open>None\<close> is the nil error.\<close>

definition Send :: "ref \<Rightarrow> message \<Rightarrow> World \<Rightarrow> error option \<times> World" where
  "Send stream msg w =
     (sendRes w (nSend w),
      w\<lparr>nSend := Suc (nSend w), trace := trace w @ [EvSend stream msg]\<rparr>)"

text \<open>
  The \<open>select\<close> between \<open>time.After(ms)\<close> and \<open>ctx.Done()\<close>: \<open>True\<close> when the
  \<open>ctx.Done()\<close> case is taken.
\<close>

definition selectAfterOrDone :: "nat \<Rightarrow> World \<Rightarrow> bool \<times> World" where
  "selectAfterOrDone ms w =
     (doneFirst w (nWait w),
      w\<lparr>nWait := Suc (nWait w), trace := trace w @ [EvWait ms]\<rparr>)"

section \<open>Stream manager (grpc.go)\<close>

definition sendInitialFrame :: "Agent \<Rightarrow> World \<Rightarrow> error option \<times> World" where
  "sendInitialFrame a w =
     (case frameStream a of
        None \<Rightarrow> (None, w)
      | Some stream \<Rightarrow>
          Send stream
            (Frame \<lparr>frameAgentId = agentID a, frameImageData = [],
                    frameTimestamp = nowMs w, frameIsPreview = INITIAL_FRAME_IS_PREVIEW\<rparr>) w)"

definition sendInitialEvent :: "Agent \<Rightarrow> World \<Rightarrow> error option \<times> World" where
  "sendInitialEvent a w =
     (case eventStream a of
        None \<Rightarrow> (None, w)
      | Some stream \<Rightarrow>
          Send stream
            (Event \<lparr>eventAgentId = agentID a, eventType = INITIAL_EVENT_TYPE,
                    eventDetail = INITIAL_EVENT_DETAIL, eventTimestamp = nowMs w\<rparr>) w)"

text \<open>
  The loop of \<open>reopenFrameStream\<close>, from attempt \<open>i\<close> on. The result \<open>None\<close> is the
  run-time panic of calling \<open>StreamFrames\<close> on a nil client; otherwise the returned
  error, the agent and the world.
\<close>

function reopenFrameLoop ::
  "nat \<Rightarrow> Agent \<Rightarrow> World \<Rightarrow> (error option \<times> Agent \<times> World) option" where
  "reopenFrameLoop i a w =
     (if i \<le> STREAM_REOPEN_MAX_ATTEMPTS then
        (case agentClient a of
           None \<Rightarrow> None
         | Some client \<Rightarrow>
             (case StreamFrames w of
                (Inr stream, w1) \<Rightarrow>
                  (let a1 = a\<lparr>frameStream := Some stream\<rparr>;
                       w2 = logf Info w1;
                       (errInit, w3) = sendInitialFrame a1 w2;
                       w4 = (if errInit \<noteq> None then logf Warn w3 else w3)
                   in Some (None, a1, w4))
              | (Inl err, w1) \<Rightarrow>
                  (let w2 = logf Warn w1;
                       (cancelled, w3) = selectAfterOrDone STREAM_REOPEN_DELAY_MS w2
                   in if cancelled then Some (Some (ctxErr w3), a, w3)
                      else reopenFrameLoop (i + 1) a w3)))
      else Some (Some Canceled, a\<lparr>frameStream := None\<rparr>, w))"
  by pat_completeness auto
termination
  by (relation "measure (\<lambda>(i, a, w). Suc STREAM_REOPEN_MAX_ATTEMPTS - i)") auto

declare reopenFrameLoop.simps [simp del]

definition reopenFrameStream ::
  "Agent \<Rightarrow> World \<Rightarrow> (error option \<times> Agent \<times> World) option" where
  "reopenFrameStream a w = reopenFrameLoop 1 a w"

function reopenEventLoop ::
  "nat \<Rightarrow> Agent \<Rightarrow> World \<Rightarrow> (error option \<times> Agent \<times> World) option" where
  "reopenEventLoop i a w =
     (if i \<le> STREAM_REOPEN_MAX_ATTEMPTS then
        (case agentClient a of
           None \<Rightarrow> None
         | Some client \<Rightarrow>
             (case StreamEvents w of
                (Inr stream, w1) \<Rightarrow>
                  (let a1 = a\<lparr>eventStream := Some stream\<rparr>;
                       w2 = logf Info w1;
                       (errInit, w3) = sendInitialEvent a1 w2;
                       w4 = (if errInit \<noteq> None then logf Warn w3 else w3)
                   in Some (None, a1, w4))
              | (Inl err, w1) \<Rightarrow>
                  (let w2 = logf Warn w1;
                       (cancelled, w3) = selectAfterOrDone STREAM_REOPEN_DELAY_MS w2
                   in if cancelled then Some (Some (ctxErr w3), a, w3)
                      else reopenEventLoop (i + 1) a w3)))
      else Some (Some Canceled, a\<lparr>eventStream := None\<rparr>, w))"
  by pat_completeness auto
termination
  by (relation "measure (\<lambda>(i, a, w). Suc STREAM_REOPEN_MAX_ATTEMPTS - i)") auto

declare reopenEventLoop.simps [simp del]

definition reopenEventStream ::
  "Agent \<Rightarrow> World \<Rightarrow> (error option \<times> Agent \<times> World) option" where
  "reopenEventStream a w = reopenEventLoop 1 a w"

text \<open>
  \<open>sendFrameData\<close> and \<open>sendEventData\<close>. The handle is read under the lock, the
  send happens outside it; after a successful reopen the handle is read again. The
  result of the retransmission is discarded (\<open>_ = a.frameStream.Send(frame)\<close>).
\<close>

definition sendFrameData ::
  "Agent \<Rightarrow> FrameData \<Rightarrow> World \<Rightarrow> (error option \<times> Agent \<times> World) option" where
  "sendFrameData a frame w =
     (case frameStream a of
        None \<Rightarrow> Some (None, a, w)
      | Some stream \<Rightarrow>
          (case Send stream (Frame frame) w of
             (None, w1) \<Rightarrow> Some (None, a, w1)
           | (Some err, w1) \<Rightarrow>
               (case reopenFrameStream a (logf Warn w1) of
                  None \<Rightarrow> None
                | Some (Some errReopen, a2, w2) \<Rightarrow> Some (Some err, a2, w2)
                | Some (None, a2, w2) \<Rightarrow>
                    (case frameStream a2 of
                       None \<Rightarrow> Some (Some err, a2, w2)
                     | Some stream2 \<Rightarrow>
                         Some (Some err, a2, snd (Send stream2 (Frame frame) w2))))))"

definition sendEventData ::
  "Agent \<Rightarrow> EventData \<Rightarrow> World \<Rightarrow> (error option \<times> Agent \<times> World) option" where
  "sendEventData a ev w =
     (case eventStream a of
        None \<Rightarrow> Some (None, a, w)
      | Some stream \<Rightarrow>
          (case Send stream (Event ev) w of
             (None, w1) \<Rightarrow> Some (None, a, w1)
           | (Some err, w1) \<Rightarrow>
               (case reopenEventStream a (logf Warn w1) of
                  None \<Rightarrow> None
                | Some (Some errReopen, a2, w2) \<Rightarrow> Some (Some err, a2, w2)
                | Some (None, a2, w2) \<Rightarrow>
                    (case eventStream a2 of
                       None \<Rightarrow> Some (Some err, a2, w2)
                     | Some stream2 \<Rightarrow>
                         Some (Some err, a2, snd (Send stream2 (Event ev) w2))))))"

section \<open>Connection manager (grpc.go)\<close>

text \<open>
  The loop of \<open>connectGRPC\<close> from attempt \<open>attempt\<close> on, with the local variable
  \<open>lastErr\<close>. The client derived from a connection is identified with the connection.
\<close>

function connectLoop ::
  "string \<Rightarrow> nat \<Rightarrow> error option \<Rightarrow> Agent \<Rightarrow> World \<Rightarrow> error option \<times> Agent \<times> World" where
  "connectLoop serverAddr attempt lastErr a w =
     (if attempt \<le> GRPC_CONNECT_MAX_ATTEMPTS then
        (case DialContext serverAddr w of
           (Inr conn, w1) \<Rightarrow>
             (None, a\<lparr>grpcConn := Some conn, agentClient := Some conn\<rparr>, logf Info w1)
         | (Inl err, w1) \<Rightarrow>
             (let w2 = logf Warn w1;
                  (cancelled, w3) = selectAfterOrDone GRPC_RETRY_DELAY_MS w2
              in if cancelled then (Some (ctxErr w3), a, w3)
                 else connectLoop serverAddr (attempt + 1) (Some err) a w3))
      else (lastErr, a, w))"
  by pat_completeness auto
termination
  by (relation "measure (\<lambda>(s, attempt, l, a, w). Suc GRPC_CONNECT_MAX_ATTEMPTS - attempt)") auto

declare connectLoop.simps [simp del]

definition connectGRPC :: "Heap \<Rightarrow> Agent \<Rightarrow> World \<Rightarrow> error option \<times> Agent \<times> World" where
  "connectGRPC h a w = connectLoop (ServerAddr (configs h (cfg a))) 1 None a w"

section \<open>Capture strategies (capturer.go)\<close>

text \<open>
  \<open>image.Rectangle\<close> with its canonicalising constructor \<open>image.Rect\<close>, and the
  images the capturer builds, as terms: a fresh \<open>image.NewRGBA(r)\<close>, the result of
  \<open>screenshot.CaptureRect(b)\<close> (whose bounds are \<open>(0, 0, b.Dx(), b.Dy())\<close>), and a
  canvas after \<open>draw.Draw(canvas, target, src, image.Point{}, draw.Src)\<close>. Go's
  \<open>int\<close> is modelled by \<open>int\<close>: screen coordinates are far from 64-bit overflow.
\<close>

record Rectangle =
  minX :: int
  minY :: int
  maxX :: int
  maxY :: int

definition Rect :: "int \<Rightarrow> int \<Rightarrow> int \<Rightarrow> int \<Rightarrow> Rectangle" where
  "Rect x0 y0 x1 y1 =
     \<lparr>minX = (if x0 > x1 then x1 else x0), minY = (if y0 > y1 then y1 else y0),
      maxX = (if x0 > x1 then x0 else x1), maxY = (if y0 > y1 then y0 else y1)\<rparr>"

definition Dx :: "Rectangle \<Rightarrow> int" where "Dx r = maxX r - minX r"
definition Dy :: "Rectangle \<Rightarrow> int" where "Dy r = maxY r - minY r"

datatype image = NewRGBA Rectangle | Grabbed Rectangle | Drawn image Rectangle image

text \<open>
  The screen and the encoders, outside the repository: the display count (never
  negative), the bounds of display \<open>i\<close>, whether the \<open>k\<close>-th \<open>CaptureRect\<close> call
  of a capture fails, and the results of \<open>png.Encode\<close> and \<open>jpeg.Encode\<close>.
\<close>

record Screen =
  NumActiveDisplays :: int
  GetDisplayBounds :: "int \<Rightarrow> Rectangle"
  CaptureRect :: "nat \<Rightarrow> Rectangle \<Rightarrow> error option"
  pngEncode :: "image \<Rightarrow> error + bytes"
  jpegEncode :: "image \<Rightarrow> int \<Rightarrow> error + bytes"

definition newDummyCapturer :: "int \<Rightarrow> int \<Rightarrow> Heap \<Rightarrow> ref \<times> Heap" where
  "newDummyCapturer w h' h =
     (nDummies h,
      h\<lparr>dummies := (dummies h)(nDummies h := \<lparr>width = w, height = h'\<rparr>),
        nDummies := Suc (nDummies h)\<rparr>)"

definition newScreenshotCapturer ::
  "string \<Rightarrow> int \<Rightarrow> string \<Rightarrow> int \<Rightarrow> Heap \<Rightarrow> ref \<times> Heap" where
  "newScreenshotCapturer m idx enc quality h =
     (nShots h,
      h\<lparr>shots := (shots h)(nShots h :=
            \<lparr>mode = m, monitorIndex = idx, encoding = enc, jpegQuality = quality\<rparr>),
        nShots := Suc (nShots h)\<rparr>)"

text \<open>
  \<open>SelectSingleMonitor\<close> and \<open>SetCombinedMode\<close> write through the pointer \<open>a.cfg\<close>
  and replace the capturer by a newly allocated one.
\<close>

definition SelectSingleMonitor :: "Screen \<Rightarrow> int \<Rightarrow> Agent \<Rightarrow> Heap \<Rightarrow> bool \<times> Agent \<times> Heap" where
  "SelectSingleMonitor scr index a h =
     (let count = NumActiveDisplays scr in
      if index < 0 \<or> index \<ge> count then (False, a, h)
      else
        (let h1 = h\<lparr>configs := (configs h)(cfg a := (configs h (cfg a))\<lparr>MonitorMode := ''single''\<rparr>)\<rparr>;
             h2 = h1\<lparr>configs := (configs h1)(cfg a := (configs h1 (cfg a))\<lparr>MonitorIndex := index\<rparr>)\<rparr>;
             (p, h3) = newScreenshotCapturer ''single'' index
                         (CaptureEncoding (configs h2 (cfg a))) (JpegQuality (configs h2 (cfg a))) h2
         in (True, a\<lparr>capturer := ScreenshotPtr p\<rparr>, h3)))"

definition SetCombinedMode :: "Agent \<Rightarrow> Heap \<Rightarrow> Agent \<times> Heap" where
  "SetCombinedMode a h =
     (let h1 = h\<lparr>configs := (configs h)(cfg a := (configs h (cfg a))\<lparr>MonitorMode := ''combined''\<rparr>)\<rparr>;
          (p, h2) = newScreenshotCapturer ''combined'' 0
                      (CaptureEncoding (configs h1 (cfg a))) (JpegQuality (configs h1 (cfg a))) h1
      in (a\<lparr>capturer := ScreenshotPtr p\<rparr>, h2))"

definition encodePNG :: "Screen \<Rightarrow> image \<Rightarrow> error + bytes" where
  "encodePNG scr img = pngEncode scr img"

definition encodeJPEG :: "Screen \<Rightarrow> image \<Rightarrow> int \<Rightarrow> error + bytes" where
  "encodeJPEG scr img quality = jpegEncode scr img quality"

definition encode :: "Screen \<Rightarrow> screenshotCapturer \<Rightarrow> image \<Rightarrow> error + bytes" where
  "encode scr s img =
     (if encoding s = ''jpeg'' then encodeJPEG scr img (jpegQuality s) else encodePNG scr img)"

text \<open>
  The first loop of the combined mode, \<open>for i := 0; i < count; i++\<close>, collects the
  bounds and accumulates \<open>totalWidth\<close> and \<open>maxHeight\<close>; the second draws each
  display at \<open>offsetX\<close> and returns at the first failed grab.
\<close>

definition measureDisplays :: "Screen \<Rightarrow> int \<Rightarrow> Rectangle list \<times> int \<times> int" where
  "measureDisplays scr count =
     foldl (\<lambda>(bounds, totalWidth, maxHeight) i.
              (let b = GetDisplayBounds scr i
               in (bounds @ [b], totalWidth + Dx b,
                   if Dy b > maxHeight then Dy b else maxHeight)))
       ([], 0, 0) (map int [0..<nat count])"

fun drawDisplays :: "Screen \<Rightarrow> Rectangle list \<Rightarrow> nat \<Rightarrow> int \<Rightarrow> image \<Rightarrow> error + image" where
  "drawDisplays scr [] i offsetX canvas = Inr canvas"
| "drawDisplays scr (b # bs) i offsetX canvas =
     (case CaptureRect scr i b of
        Some err \<Rightarrow> Inl err
      | None \<Rightarrow>
          drawDisplays scr bs (Suc i) (offsetX + Dx b)
            (Drawn canvas (Rect offsetX 0 (offsetX + Dx b) (Dy b)) (Grabbed b)))"

text \<open>
  \<open>(*screenshotCapturer).Capture\<close> on the capturer at address \<open>p\<close>. The receiver is
  a pointer, so the assignment \<open>s.monitorIndex = 0\<close> is a write to the store.
\<close>

definition Capture :: "Screen \<Rightarrow> ref \<Rightarrow> Heap \<Rightarrow> (error + bytes) \<times> Heap" where
  "Capture scr p h =
     (let count = NumActiveDisplays scr in
      if count = 0 then (encode scr (shots h p) (NewRGBA (Rect 0 0 1 1)), h)
      else if mode (shots h p) = ''single'' then
        (let h1 = (if monitorIndex (shots h p) \<ge> count
                   then h\<lparr>shots := (shots h)(p := (shots h p)\<lparr>monitorIndex := 0\<rparr>)\<rparr>
                   else h);
             b = GetDisplayBounds scr (monitorIndex (shots h1 p))
         in case CaptureRect scr 0 b of
              Some err \<Rightarrow> (Inl err, h1)
            | None \<Rightarrow> (encode scr (shots h1 p) (Grabbed b), h1))
      else
        (let (bounds, totalWidth, maxHeight) = measureDisplays scr count;
             canvas = NewRGBA (Rect 0 0 totalWidth maxHeight)
         in case drawDisplays scr bounds 0 0 canvas of
              Inl err \<Rightarrow> (Inl err, h)
            | Inr canvas' \<Rightarrow> (encode scr (shots h p) canvas', h)))"

section \<open>The agent's constructor (grpc.go)\<close>

text \<open>
  \<open>New\<close> receives the pointer \<open>cfgp\<close> to the configuration that \<open>config.Load\<close>
  built and stores that pointer. \<open>goos\<close> is \<open>runtime.GOOS\<close>, \<open>host\<close> the result of
  \<open>os.Hostname\<close>, \<open>envId\<close> the value of \<open>AGENT_ID\<close> and \<open>uuid\<close> a fresh UUID.
\<close>

definition New ::
  "string \<Rightarrow> string \<Rightarrow> string \<Rightarrow> string \<Rightarrow> ref option \<Rightarrow> ref \<Rightarrow> Heap \<Rightarrow> Agent \<times> Heap" where
  "New goos host envId uuid ctxp cfgp h =
     (let id = (if envId = [] then uuid else envId);
          c = configs h cfgp;
          (capt, h1) =
            (if goos = ''windows'' \<or> goos = ''darwin'' \<or> goos = ''linux''
             then (let (p, h') = newScreenshotCapturer (MonitorMode c) (MonitorIndex c)
                                   (CaptureEncoding c) (JpegQuality c) h
                   in (ScreenshotPtr p, h'))
             else (let (p, h') = newDummyCapturer (FrameWidth c) (FrameHeight c) h
                   in (DummyPtr p, h')))
      in (\<lparr>ctx = ctxp, grpcConn = None, agentClient = None, frameStream = None,
           eventStream = None, agentID = id, hostname = host, cfg = cfgp,
           capturer = capt, captureStopCh = None\<rparr>, h1))"

section \<open>Capture scheduler (capture.go)\<close>

text \<open>
  \<open>StartCapture\<close> on a possibly nil agent: \<open>make(chan struct{})\<close> allocates an open
  channel and \<open>go a.captureLoop(ch)\<close> adds a loop bound to it. \<open>StopCapture\<close>
  closes the channel; closing a closed channel is a run-time panic, the result \<open>None\<close>.
  The store keeps no log, so the two \<open>logger.Info\<close> calls leave no mark here.
\<close>

definition StartCapture :: "Agent option \<Rightarrow> Heap \<Rightarrow> error option \<times> Agent option \<times> Heap" where
  "StartCapture ao h =
     (case ao of
        None \<Rightarrow> (None, ao, h)
      | Some a \<Rightarrow>
          if ctx a = None then (None, ao, h)
          else if captureStopCh a \<noteq> None then (None, ao, h)
          else
            (let ch = nChans h;
                 h1 = h\<lparr>closed := (closed h)(ch := False), nChans := Suc ch\<rparr>;
                 h2 = h1\<lparr>loops := loops h1 @ [ch]\<rparr>
             in (None, Some (a\<lparr>captureStopCh := Some ch\<rparr>), h2)))"

definition StopCapture :: "Agent \<Rightarrow> Heap \<Rightarrow> (Agent \<times> Heap) option" where
  "StopCapture a h =
     (case captureStopCh a of
        None \<Rightarrow> Some (a, h)
      | Some ch \<Rightarrow>
          if closed h ch then None
          else Some (a\<lparr>captureStopCh := None\<rparr>, h\<lparr>closed := (closed h)(ch := True)\<rparr>))"

text \<open>The capture loops that have not been told to stop.\<close>

definition running :: "Heap \<Rightarrow> ref list" where
  "running h = filter (\<lambda>ch. \<not> closed h ch) (loops h)"

text \<open>
  The pacing of \<open>captureLoop\<close>. Times are nanoseconds, as \<open>time.Duration\<close> counts
  them. The loop sees the rest of the program through \<open>CaptureEnv\<close>: whether iteration
  \<open>i\<close> finds \<open>ctx.Done()\<close> or \<open>stopCh\<close> ready, how long the \<open>k\<close>-th capture and
  the \<open>k\<close>-th send take, and whether the \<open>k\<close>-th capture fails. The clock advances by
  these durations and by the sleeps only.
\<close>

definition Millisecond :: int where "Millisecond = 1000000"
definition Second :: int where "Second = 1000000000"

definition frameIntervalOf :: "Config \<Rightarrow> int" where
  "frameIntervalOf c =
     (if TargetFPS c > 0 then Second div TargetFPS c else CaptureIntervalMs c * Millisecond)"

record CaptureEnv =
  quitAt :: "nat \<Rightarrow> bool"
  captureTime :: "nat \<Rightarrow> int"
  captureFails :: "nat \<Rightarrow> bool"
  sendTime :: "nat \<Rightarrow> int"

record LoopState =
  clock :: int
  nextFrameTime :: int
  iter :: nat
  captureStarts :: "int list"
  resets :: nat
  exited :: bool

text \<open>One iteration of the \<open>for\<close> loop.\<close>

definition captureIteration :: "int \<Rightarrow> CaptureEnv \<Rightarrow> LoopState \<Rightarrow> LoopState" where
  "captureIteration frameInterval env s =
     (if quitAt env (iter s) then s\<lparr>exited := True\<rparr>
      else
        (let now = clock s; wait = nextFrameTime s - now in
         if wait > 0 then s\<lparr>clock := now + wait, iter := Suc (iter s)\<rparr>
         else
           (let k = length (captureStarts s);
                s1 = s\<lparr>captureStarts := captureStarts s @ [now],
                       clock := now + captureTime env k, iter := Suc (iter s)\<rparr>
            in if captureFails env k
               then s1\<lparr>nextFrameTime := nextFrameTime s1 + frameInterval\<rparr>
               else
                 (let s2 = s1\<lparr>clock := clock s1 + sendTime env k\<rparr>;
                      s3 = s2\<lparr>nextFrameTime := nextFrameTime s2 + frameInterval\<rparr>;
                      lag = clock s3 - nextFrameTime s3
                  in if lag > frameInterval
                     then s3\<lparr>nextFrameTime := clock s3 + frameInterval,
                             resets := Suc (resets s3)\<rparr>
                     else s3))))"

text \<open>The loop, cut after \<open>n\<close> iterations; it stops earlier when it has exited.\<close>

fun captureLoopFrom :: "nat \<Rightarrow> int \<Rightarrow> CaptureEnv \<Rightarrow> LoopState \<Rightarrow> LoopState" where
  "captureLoopFrom 0 frameInterval env s = s"
| "captureLoopFrom (Suc n) frameInterval env s =
     (let s' = captureIteration frameInterval env s
      in if exited s' then s' else captureLoopFrom n frameInterval env s')"

definition captureLoop :: "nat \<Rightarrow> Config \<Rightarrow> CaptureEnv \<Rightarrow> int \<Rightarrow> LoopState" where
  "captureLoop n c env start =
     captureLoopFrom n (frameIntervalOf c) env
       \<lparr>clock = start, nextFrameTime = start, iter = 0, captureStarts = [],
        resets = 0, exited = False\<rparr>"

section \<open>Auxiliary definitions for the statements\<close>

text \<open>The handshake messages that \<open>sendInitialFrame\<close> and \<open>sendInitialEvent\<close> build.\<close>

definition initialFrame :: "Agent \<Rightarrow> World \<Rightarrow> message" where
  "initialFrame a w =
     Frame \<lparr>frameAgentId = agentID a, frameImageData = [],
            frameTimestamp = nowMs w, frameIsPreview = INITIAL_FRAME_IS_PREVIEW\<rparr>"

definition initialEvent :: "Agent \<Rightarrow> World \<Rightarrow> message" where
  "initialEvent a w =
     Event \<lparr>eventAgentId = agentID a, eventType = INITIAL_EVENT_TYPE,
            eventDetail = INITIAL_EVENT_DETAIL, eventTimestamp = nowMs w\<rparr>"

text \<open>
  The world after one failed attempt to open a stream whose wait ran to its end
  (\<open>ev\<close> is the open call made), and after an attempt that opened the stream and sent
  the handshake \<open>hello\<close> on it.
\<close>

definition failedOpen :: "event \<Rightarrow> World \<Rightarrow> World" where
  "failedOpen ev w =
     w\<lparr>nOpen := Suc (nOpen w), nWait := Suc (nWait w),
       trace := trace w @ [ev, EvLog Warn, EvWait STREAM_REOPEN_DELAY_MS]\<rparr>"

definition opened :: "event \<Rightarrow> message \<Rightarrow> World \<Rightarrow> World" where
  "opened ev hello w =
     w\<lparr>nOpen := Suc (nOpen w), nSend := Suc (nSend w),
       trace := trace w @ [ev, EvLog Info, EvSend (nOpen w) hello]
                @ (if sendRes w (nSend w) \<noteq> None then [EvLog Warn] else [])\<rparr>"

text \<open>
  The world after one failed dial whose wait ran to its end, and after a dial that
  connected.
\<close>

definition failedDial :: "string \<Rightarrow> World \<Rightarrow> World" where
  "failedDial addr w =
     w\<lparr>nDial := Suc (nDial w), nWait := Suc (nWait w),
       trace := trace w @ [EvDial addr, EvLog Warn, EvWait GRPC_RETRY_DELAY_MS]\<rparr>"

definition connected :: "string \<Rightarrow> World \<Rightarrow> World" where
  "connected addr w =
     w\<lparr>nDial := Suc (nDial w), trace := trace w @ [EvDial addr, EvLog Info]\<rparr>"

text \<open>Concrete inputs: a connected agent with both streams open, and a world.\<close>

definition exConfig :: Config where
  "exConfig =
     \<lparr>ServerAddr = ''localhost:50051'', CaptureIntervalMs = 1000, TargetFPS = 60,
      FrameWidth = 200, FrameHeight = 150, MonitorMode = ''single'', MonitorIndex = 0,
      CaptureEncoding = ''png'', JpegQuality = 80, ForcePreview = False\<rparr>"

definition exHeap :: Heap where
  "exHeap =
     \<lparr>configs = (\<lambda>r. exConfig),
      shots = (\<lambda>r. \<lparr>mode = ''single'', monitorIndex = 0, encoding = ''png'', jpegQuality = 80\<rparr>),
      nShots = 0,
      dummies = (\<lambda>r. \<lparr>width = 200, height = 150\<rparr>),
      nDummies = 0,
      closed = (\<lambda>r. False),
      nChans = 0,
      loops = []\<rparr>"

definition exAgent :: Agent where
  "exAgent =
     \<lparr>ctx = Some 0, grpcConn = Some 0, agentClient = Some 0, frameStream = Some 0,
      eventStream = Some 1, agentID = ''agent-1'', hostname = ''host'', cfg = 0,
      capturer = ScreenshotPtr 0, captureStopCh = None\<rparr>"

definition exIdle :: Agent where
  "exIdle = exAgent\<lparr>frameStream := None, eventStream := None\<rparr>"

definition exWorld ::
  "(nat \<Rightarrow> error option) \<Rightarrow> (nat \<Rightarrow> error option) \<Rightarrow> (nat \<Rightarrow> error option) \<Rightarrow> (nat \<Rightarrow> bool) \<Rightarrow> World" where
  "exWorld dials opens sends dones =
     \<lparr>dialRes = dials, openRes = opens, sendRes = sends, doneFirst = dones,
      ctxErr = Canceled, nowMs = 1000, nDial = 0, nOpen = 0, nSend = 0, nWait = 0,
      trace = []\<rparr>"

definition exFrame :: FrameData where
  "exFrame = \<lparr>frameAgentId = ''agent-1'', frameImageData = [1, 2, 3],
              frameTimestamp = 2000, frameIsPreview = False\<rparr>"

definition exEvent :: EventData where
  "exEvent = \<lparr>eventAgentId = ''agent-1'', eventType = ''note'', eventDetail = ''x'',
              eventTimestamp = 2000\<rparr>"

text \<open>Oracles for the concrete worlds.\<close>

definition noFail :: "nat \<Rightarrow> error option" where "noFail k = None"
definition allFail :: "nat \<Rightarrow> error option" where "allFail k = Some (OtherError k)"
definition failButSecond :: "nat \<Rightarrow> error option" where
  "failButSecond k = (if k = 1 then None else Some (OtherError 7))"
definition never :: "nat \<Rightarrow> bool" where "never k = False"
definition atOnce :: "nat \<Rightarrow> bool" where "atOnce k = True"
definition atFifth :: "nat \<Rightarrow> bool" where "atFifth k = (k = 4)"

text \<open>
  The agent and the world after a frame send whose reopen ran out of attempts: every
  send and every open fails, no wait is cut short.
\<close>

definition exDisabled :: "Agent \<times> World" where
  "exDisabled = snd (the (sendFrameData exAgent exFrame (exWorld noFail allFail allFail never)))"

text \<open>
  A sequence of calls of the control surface: each \<open>SelectMonitor\<close> comes with the
  screen as it is at the time of the call.
\<close>

datatype control = SelectMonitor Screen int | CombinedMode

fun applyControls :: "control list \<Rightarrow> Agent \<Rightarrow> Heap \<Rightarrow> Agent \<times> Heap" where
  "applyControls [] a h = (a, h)"
| "applyControls (SelectMonitor scr index # cs) a h =
     (case SelectSingleMonitor scr index a h of (ok, a', h') \<Rightarrow> applyControls cs a' h')"
| "applyControls (CombinedMode # cs) a h =
     (case SetCombinedMode a h of (a', h') \<Rightarrow> applyControls cs a' h')"

text \<open>Two configurations that agree on every field but the monitor mode and index.\<close>

definition sameButMonitor :: "Config \<Rightarrow> Config \<Rightarrow> bool" where
  "sameButMonitor c c' =
     (ServerAddr c' = ServerAddr c \<and> CaptureIntervalMs c' = CaptureIntervalMs c \<and>
      TargetFPS c' = TargetFPS c \<and> FrameWidth c' = FrameWidth c \<and>
      FrameHeight c' = FrameHeight c \<and> CaptureEncoding c' = CaptureEncoding c \<and>
      JpegQuality c' = JpegQuality c \<and> ForcePreview c' = ForcePreview c)"

text \<open>
  The scheduler's states as the store shows them: stopped, with no loop running, or
  running, with exactly the loop bound to the agent's stop channel; every channel a
  loop is bound to is allocated.
\<close>

definition schedulerOk :: "Agent \<Rightarrow> Heap \<Rightarrow> bool" where
  "schedulerOk a h =
     ((case captureStopCh a of None \<Rightarrow> running h = [] | Some ch \<Rightarrow> running h = [ch]) \<and>
      (\<forall>c \<in> set (loops h). c < nChans h))"

text \<open>
  The composite of the specification: a canvas as wide as the sum of the widths and
  as high as the highest display, with display \<open>i\<close> drawn at the sum of the widths of
  the displays before it, its top at 0.
\<close>

definition specTarget :: "Rectangle list \<Rightarrow> nat \<Rightarrow> Rectangle" where
  "specTarget bs i =
     \<lparr>minX = sum_list (map Dx (take i bs)), minY = 0,
      maxX = sum_list (map Dx (take i bs)) + Dx (bs ! i), maxY = Dy (bs ! i)\<rparr>"

definition specComposite :: "Rectangle list \<Rightarrow> image" where
  "specComposite bs =
     foldl (\<lambda>canvas i. Drawn canvas (specTarget bs i) (Grabbed (bs ! i)))
       (NewRGBA \<lparr>minX = 0, minY = 0, maxX = sum_list (map Dx bs), maxY = Max (set (map Dy bs))\<rparr>)
       [0..<length bs]"

text \<open>Concrete inputs for the capture side.\<close>

definition exBounds :: "Rectangle list" where
  "exBounds = [\<lparr>minX = 0, minY = 0, maxX = 800, maxY = 600\<rparr>,
               \<lparr>minX = 0, minY = 0, maxX = 1024, maxY = 768\<rparr>]"

definition exBoundsAt :: "int \<Rightarrow> Rectangle" where
  "exBoundsAt i = (if i = 0 then \<lparr>minX = 0, minY = 0, maxX = 800, maxY = 600\<rparr>
                   else \<lparr>minX = 0, minY = 0, maxX = 1024, maxY = 768\<rparr>)"

definition grabOk :: "nat \<Rightarrow> Rectangle \<Rightarrow> error option" where "grabOk k b = None"
definition pngOk :: "image \<Rightarrow> error + bytes" where "pngOk img = Inr [137, 80, 78, 71]"
definition jpegOk :: "image \<Rightarrow> int \<Rightarrow> error + bytes" where "jpegOk img q = Inr [255, 216]"

definition exScreen :: "int \<Rightarrow> Screen" where
  "exScreen n =
     \<lparr>NumActiveDisplays = n, GetDisplayBounds = exBoundsAt, CaptureRect = grabOk,
      pngEncode = pngOk, jpegEncode = jpegOk\<rparr>"

definition exShot :: "string \<Rightarrow> int \<Rightarrow> screenshotCapturer" where
  "exShot m i = \<lparr>mode = m, monitorIndex = i, encoding = ''png'', jpegQuality = 80\<rparr>"

definition exHeapWith :: "screenshotCapturer \<Rightarrow> Heap" where
  "exHeapWith s = exHeap\<lparr>shots := (shots exHeap)(0 := s), nShots := 1\<rparr>"

text \<open>The agent as \<open>startup\<close> builds it on Linux, and the store after that.\<close>

definition exNew :: "Agent \<times> Heap" where
  "exNew = New ''linux'' ''host'' [] ''uuid-1'' (Some 0) 0 exHeap"

text \<open>The same agent after one \<open>StartCapture\<close>.\<close>

definition exStarted :: "Agent \<times> Heap" where
  "exStarted =
     (the (fst (snd (StartCapture (Some (fst exNew)) (snd exNew)))),
      snd (snd (StartCapture (Some (fst exNew)) (snd exNew))))"

text \<open>
  Concrete inputs for the pacing: ten frames per second, so an interval of 100 ms; the
  first capture stalls for 200 ms (or, in the second variant, for 250 ms), every later one takes 10 ms; sends take no time and
  nothing fails or quits.
\<close>

definition exStallTime :: "nat \<Rightarrow> int" where
  "exStallTime k = (if k = 0 then 200000000 else 10000000)"

definition exLongStallTime :: "nat \<Rightarrow> int" where
  "exLongStallTime k = (if k = 0 then 250000000 else 10000000)"

definition noTime :: "nat \<Rightarrow> int" where "noTime k = 0"

definition exEnv :: "(nat \<Rightarrow> int) \<Rightarrow> CaptureEnv" where
  "exEnv t = \<lparr>quitAt = never, captureTime = t, captureFails = never, sendTime = noTime\<rparr>"

definition exStart :: LoopState where
  "exStart = \<lparr>clock = 0, nextFrameTime = 0, iter = 0, captureStarts = [], resets = 0,
              exited = False\<rparr>"

text \<open>The same, with every capture failing after 10 ms.\<close>

definition shortTime :: "nat \<Rightarrow> int" where "shortTime k = 10000000"

definition exFailEnv :: CaptureEnv where
  "exFailEnv = \<lparr>quitAt = never, captureTime = shortTime, captureFails = atOnce, sendTime = noTime\<rparr>"

section \<open>Stream manager: reopening and retransmission\<close>

lemma failedOpen_fields [simp]:
  "openRes (failedOpen ev w) = openRes w"
  "sendRes (failedOpen ev w) = sendRes w"
  "doneFirst (failedOpen ev w) = doneFirst w"
  "dialRes (failedOpen ev w) = dialRes w"
  "ctxErr (failedOpen ev w) = ctxErr w"
  "nowMs (failedOpen ev w) = nowMs w"
  "nOpen (failedOpen ev w) = Suc (nOpen w)"
  "nWait (failedOpen ev w) = Suc (nWait w)"
  "nSend (failedOpen ev w) = nSend w"
  "nDial (failedOpen ev w) = nDial w"
  by (simp_all add: failedOpen_def)

lemma failedOpen_pow_fields [simp]:
  "openRes ((failedOpen ev ^^ k) w) = openRes w"
  "sendRes ((failedOpen ev ^^ k) w) = sendRes w"
  "doneFirst ((failedOpen ev ^^ k) w) = doneFirst w"
  "ctxErr ((failedOpen ev ^^ k) w) = ctxErr w"
  "nowMs ((failedOpen ev ^^ k) w) = nowMs w"
  "nOpen ((failedOpen ev ^^ k) w) = nOpen w + k"
  "nWait ((failedOpen ev ^^ k) w) = nWait w + k"
  "nSend ((failedOpen ev ^^ k) w) = nSend w"
  by (induction k) simp_all

lemma concat_replicate_comm: "concat (replicate k xs) @ xs = xs @ concat (replicate k xs)"
  by (induction k) simp_all

lemma trace_failedOpen:
  "trace (failedOpen ev w) = trace w @ [ev, EvLog Warn, EvWait STREAM_REOPEN_DELAY_MS]"
  by (simp add: failedOpen_def)

lemma trace_failedOpen_pow:
  "trace ((failedOpen ev ^^ k) w) =
     trace w @ concat (replicate k [ev, EvLog Warn, EvWait STREAM_REOPEN_DELAY_MS])"
proof (induction k)
  case 0
  show ?case by simp
next
  case (Suc k)
  have "trace ((failedOpen ev ^^ Suc k) w) =
      trace ((failedOpen ev ^^ k) w) @ [ev, EvLog Warn, EvWait STREAM_REOPEN_DELAY_MS]"
    by (simp add: trace_failedOpen)
  also have "\<dots> = trace w @ (concat (replicate k [ev, EvLog Warn, EvWait STREAM_REOPEN_DELAY_MS])
      @ [ev, EvLog Warn, EvWait STREAM_REOPEN_DELAY_MS])"
    by (simp add: Suc.IH)
  also have "\<dots> = trace w @ concat (replicate (Suc k) [ev, EvLog Warn, EvWait STREAM_REOPEN_DELAY_MS])"
    by (simp only: concat_replicate_comm replicate_Suc concat.simps)
  finally show ?case .
qed

lemma reopenFrameLoop_retry:
  assumes "i \<le> STREAM_REOPEN_MAX_ATTEMPTS" "agentClient a = Some c"
    "openRes w (nOpen w) = Some e" "\<not> doneFirst w (nWait w)"
  shows "reopenFrameLoop i a w = reopenFrameLoop (Suc i) a (failedOpen EvOpenFrames w)"
  using assms
  by (subst reopenFrameLoop.simps)
     (simp add: StreamFrames_def logf_def selectAfterOrDone_def failedOpen_def)

lemma reopenFrameLoop_cancelled:
  assumes "i \<le> STREAM_REOPEN_MAX_ATTEMPTS" "agentClient a = Some c"
    "openRes w (nOpen w) = Some e" "doneFirst w (nWait w)"
  shows "reopenFrameLoop i a w = Some (Some (ctxErr w), a, failedOpen EvOpenFrames w)"
  using assms
  by (subst reopenFrameLoop.simps)
     (simp add: StreamFrames_def logf_def selectAfterOrDone_def failedOpen_def)

lemma reopenFrameLoop_exhausted:
  assumes "\<not> i \<le> STREAM_REOPEN_MAX_ATTEMPTS"
  shows "reopenFrameLoop i a w = Some (Some Canceled, a\<lparr>frameStream := None\<rparr>, w)"
  using assms by (subst reopenFrameLoop.simps) simp

lemma reopenFrameLoop_panic:
  assumes "i \<le> STREAM_REOPEN_MAX_ATTEMPTS" "agentClient a = None"
  shows "reopenFrameLoop i a w = None"
  using assms by (subst reopenFrameLoop.simps) simp

lemma reopenFrameLoop_opened:
  assumes "i \<le> STREAM_REOPEN_MAX_ATTEMPTS" "agentClient a = Some c"
    "openRes w (nOpen w) = None"
  shows "reopenFrameLoop i a w =
    Some (None, a\<lparr>frameStream := Some (nOpen w)\<rparr>, opened EvOpenFrames (initialFrame a w) w)"
  using assms
  by (subst reopenFrameLoop.simps)
     (simp add: StreamFrames_def logf_def sendInitialFrame_def Send_def initialFrame_def opened_def)

text \<open>A reopen that reports success opened a stream at its attempt \<open>k + 1\<close> after \<open>k\<close> failures.\<close>

lemma reopenFrameLoop_success:
  assumes "reopenFrameLoop i a w = Some (None, a2, w2)"
  shows "\<exists>k. i + k \<le> STREAM_REOPEN_MAX_ATTEMPTS \<and>
           a2 = a\<lparr>frameStream := Some (nOpen w + k)\<rparr> \<and>
           w2 = opened EvOpenFrames (initialFrame a w) ((failedOpen EvOpenFrames ^^ k) w)"
  using assms
proof (induction "Suc STREAM_REOPEN_MAX_ATTEMPTS - i" arbitrary: i w)
  case 0
  then have "\<not> i \<le> STREAM_REOPEN_MAX_ATTEMPTS" by simp
  with "0.prems" show ?case by (simp add: reopenFrameLoop_exhausted)
next
  case (Suc n)
  then have le: "i \<le> STREAM_REOPEN_MAX_ATTEMPTS" by simp
  show ?case
  proof (cases "agentClient a")
    case None
    with le Suc.prems show ?thesis by (simp add: reopenFrameLoop_panic)
  next
    case (Some c)
    show ?thesis
    proof (cases "openRes w (nOpen w)")
      case None
      with le Some Suc.prems have "a2 = a\<lparr>frameStream := Some (nOpen w)\<rparr>"
        "w2 = opened EvOpenFrames (initialFrame a w) w"
        by (simp_all add: reopenFrameLoop_opened)
      then show ?thesis using le by (intro exI[of _ 0]) simp
    next
      case (Some e) note oe = this
      show ?thesis
      proof (cases "doneFirst w (nWait w)")
        case True
        with le \<open>agentClient a = Some c\<close> oe Suc.prems show ?thesis
          by (simp add: reopenFrameLoop_cancelled)
      next
        case False
        with le \<open>agentClient a = Some c\<close> oe Suc.prems
        have r: "reopenFrameLoop (Suc i) a (failedOpen EvOpenFrames w) = Some (None, a2, w2)"
          by (simp add: reopenFrameLoop_retry)
        have "n = Suc STREAM_REOPEN_MAX_ATTEMPTS - Suc i" using Suc.hyps(2) by simp
        from Suc.hyps(1)[OF this r] obtain k where
          k: "Suc i + k \<le> STREAM_REOPEN_MAX_ATTEMPTS"
          "a2 = a\<lparr>frameStream := Some (nOpen (failedOpen EvOpenFrames w) + k)\<rparr>"
          "w2 = opened EvOpenFrames (initialFrame a (failedOpen EvOpenFrames w))
                  ((failedOpen EvOpenFrames ^^ k) (failedOpen EvOpenFrames w))"
          by blast
        show ?thesis
          using k by (intro exI[of _ "Suc k"]) (simp add: funpow_swap1 initialFrame_def)
      qed
    qed
  qed
qed


lemma reopenFrameStream_exhausted:
  assumes c: "agentClient a = Some client"
    and o: "\<forall>k<3. openRes w (nOpen w + k) \<noteq> None"
    and d: "\<forall>k<3. \<not> doneFirst w (nWait w + k)"
  shows "reopenFrameStream a w =
    Some (Some Canceled, a\<lparr>frameStream := None\<rparr>, (failedOpen EvOpenFrames ^^ 3) w)"
proof -
  from o obtain e0 e1 e2 where o0: "openRes w (nOpen w) = Some e0"
    and o1: "openRes w (Suc (nOpen w)) = Some e1"
    and o2: "openRes w (Suc (Suc (nOpen w))) = Some e2"
    using o[rule_format, of 0] o[rule_format, of 1] o[rule_format, of 2]
    by (auto simp add: numeral_eq_Suc)
  from d have d0: "\<not> doneFirst w (nWait w)" and d1: "\<not> doneFirst w (Suc (nWait w))"
    and d2: "\<not> doneFirst w (Suc (Suc (nWait w)))"
    using d[rule_format, of 0] d[rule_format, of 1] d[rule_format, of 2]
    by (simp_all add: numeral_eq_Suc)
  have m: "Suc 0 \<le> STREAM_REOPEN_MAX_ATTEMPTS" "Suc (Suc 0) \<le> STREAM_REOPEN_MAX_ATTEMPTS"
    "Suc (Suc (Suc 0)) \<le> STREAM_REOPEN_MAX_ATTEMPTS"
    "\<not> Suc (Suc (Suc (Suc 0))) \<le> STREAM_REOPEN_MAX_ATTEMPTS"
    by (simp_all add: STREAM_REOPEN_MAX_ATTEMPTS_def)
  let ?w1 = "failedOpen EvOpenFrames w"
  let ?w2 = "failedOpen EvOpenFrames ?w1"
  let ?w3 = "failedOpen EvOpenFrames ?w2"
  have "reopenFrameLoop (Suc 0) a w = reopenFrameLoop (Suc (Suc 0)) a ?w1"
    using c o0 d0 by (intro reopenFrameLoop_retry[OF m(1)]) simp_all
  also have "\<dots> = reopenFrameLoop (Suc (Suc (Suc 0))) a ?w2"
    using c o1 d1 by (intro reopenFrameLoop_retry[OF m(2)]) simp_all
  also have "\<dots> = reopenFrameLoop (Suc (Suc (Suc (Suc 0)))) a ?w3"
    using c o2 d2 by (intro reopenFrameLoop_retry[OF m(3)]) simp_all
  also have "\<dots> = Some (Some Canceled, a\<lparr>frameStream := None\<rparr>, ?w3)"
    by (rule reopenFrameLoop_exhausted[OF m(4)])
  finally show ?thesis by (simp add: reopenFrameStream_def numeral_eq_Suc)
qed

lemma sendFrameData_nil:
  "frameStream a = None \<Longrightarrow> sendFrameData a f w = Some (None, a, w)"
  by (simp add: sendFrameData_def)

lemma sendFrameData_retransmit:
  assumes s0: "frameStream a = Some s0"
    and fail: "sendRes w (nSend w) = Some err"
    and ok: "map_option fst (reopenFrameStream a (logf Warn (snd (Send s0 (Frame f) w)))) = Some None"
  shows "\<exists>k s1 a' w'. k < STREAM_REOPEN_MAX_ATTEMPTS \<and>
           sendFrameData a f w = Some (Some err, a', w') \<and>
           frameStream a' = Some s1 \<and>
           nOpen w' = nOpen w + k + 1 \<and>
           nSend w' = nSend w + 3 \<and>
           trace w' = trace w @ [EvSend s0 (Frame f), EvLog Warn]
             @ concat (replicate k [EvOpenFrames, EvLog Warn, EvWait STREAM_REOPEN_DELAY_MS])
             @ [EvOpenFrames, EvLog Info, EvSend s1 (initialFrame a w)]
             @ (if sendRes w (nSend w + 1) \<noteq> None then [EvLog Warn] else [])
             @ [EvSend s1 (Frame f)]"
proof -
  let ?v = "logf Warn (snd (Send s0 (Frame f) w))"
  from ok obtain a2 w2 where r: "reopenFrameStream a ?v = Some (None, a2, w2)"
    by (cases "reopenFrameStream a ?v") auto
  then have "reopenFrameLoop (Suc 0) a ?v = Some (None, a2, w2)"
    by (simp add: reopenFrameStream_def)
  from reopenFrameLoop_success[OF this] obtain k where
    k: "Suc 0 + k \<le> STREAM_REOPEN_MAX_ATTEMPTS"
    and a2: "a2 = a\<lparr>frameStream := Some (nOpen ?v + k)\<rparr>"
    and w2: "w2 = opened EvOpenFrames (initialFrame a ?v) ((failedOpen EvOpenFrames ^^ k) ?v)"
    by blast
  have w0: "nOpen ?v = nOpen w" "nSend ?v = Suc (nSend w)" "sendRes ?v = sendRes w"
    "trace ?v = trace w @ [EvSend s0 (Frame f), EvLog Warn]" "nowMs ?v = nowMs w"
    by (simp_all add: logf_def Send_def)
  let ?w' = "snd (Send (nOpen w + k) (Frame f) w2)"
  have res: "sendFrameData a f w = Some (Some err, a2, ?w')"
    using s0 fail r a2 w0 by (simp add: sendFrameData_def Send_def)
  have tr: "trace ?w' = trace w @ [EvSend s0 (Frame f), EvLog Warn]
             @ concat (replicate k [EvOpenFrames, EvLog Warn, EvWait STREAM_REOPEN_DELAY_MS])
             @ [EvOpenFrames, EvLog Info, EvSend (nOpen w + k) (initialFrame a w)]
             @ (if sendRes w (nSend w + 1) \<noteq> None then [EvLog Warn] else [])
             @ [EvSend (nOpen w + k) (Frame f)]"
    using w0 by (simp add: w2 Send_def opened_def trace_failedOpen_pow initialFrame_def)
  have cnt: "nOpen ?w' = nOpen w + k + 1" "nSend ?w' = nSend w + 3"
    using w0 by (simp_all add: w2 Send_def opened_def)
  show ?thesis
    using k res tr cnt a2 w0
    by (intro exI[of _ k] exI[of _ "nOpen w + k"] exI[of _ a2] exI[of _ ?w']) simp
qed
lemma sendFrameData_exhausted:
  assumes "frameStream a = Some s0" "agentClient a = Some client"
    "sendRes w (nSend w) = Some err"
    "\<forall>k<3. openRes w (nOpen w + k) \<noteq> None" "\<forall>k<3. \<not> doneFirst w (nWait w + k)"
  shows "sendFrameData a f w =
    Some (Some err, a\<lparr>frameStream := None\<rparr>,
          (failedOpen EvOpenFrames ^^ 3) (logf Warn (snd (Send s0 (Frame f) w))))"
proof -
  let ?v = "logf Warn (snd (Send s0 (Frame f) w))"
  have "reopenFrameStream a ?v =
      Some (Some Canceled, a\<lparr>frameStream := None\<rparr>, (failedOpen EvOpenFrames ^^ 3) ?v)"
    using assms
    by (intro reopenFrameStream_exhausted[of a client]) (simp_all add: logf_def Send_def)
  with assms show ?thesis
    by (simp add: sendFrameData_def Send_def)
qed

lemma reopenEventLoop_retry:
  assumes "i \<le> STREAM_REOPEN_MAX_ATTEMPTS" "agentClient a = Some c"
    "openRes w (nOpen w) = Some e" "\<not> doneFirst w (nWait w)"
  shows "reopenEventLoop i a w = reopenEventLoop (Suc i) a (failedOpen EvOpenEvents w)"
  using assms
  by (subst reopenEventLoop.simps)
     (simp add: StreamEvents_def logf_def selectAfterOrDone_def failedOpen_def)

lemma reopenEventLoop_cancelled:
  assumes "i \<le> STREAM_REOPEN_MAX_ATTEMPTS" "agentClient a = Some c"
    "openRes w (nOpen w) = Some e" "doneFirst w (nWait w)"
  shows "reopenEventLoop i a w = Some (Some (ctxErr w), a, failedOpen EvOpenEvents w)"
  using assms
  by (subst reopenEventLoop.simps)
     (simp add: StreamEvents_def logf_def selectAfterOrDone_def failedOpen_def)

lemma reopenEventLoop_exhausted:
  assumes "\<not> i \<le> STREAM_REOPEN_MAX_ATTEMPTS"
  shows "reopenEventLoop i a w = Some (Some Canceled, a\<lparr>eventStream := None\<rparr>, w)"
  using assms by (subst reopenEventLoop.simps) simp

lemma reopenEventLoop_panic:
  assumes "i \<le> STREAM_REOPEN_MAX_ATTEMPTS" "agentClient a = None"
  shows "reopenEventLoop i a w = None"
  using assms by (subst reopenEventLoop.simps) simp

lemma reopenEventLoop_opened:
  assumes "i \<le> STREAM_REOPEN_MAX_ATTEMPTS" "agentClient a = Some c"
    "openRes w (nOpen w) = None"
  shows "reopenEventLoop i a w =
    Some (None, a\<lparr>eventStream := Some (nOpen w)\<rparr>, opened EvOpenEvents (initialEvent a w) w)"
  using assms
  by (subst reopenEventLoop.simps)
     (simp add: StreamEvents_def logf_def sendInitialEvent_def Send_def initialEvent_def opened_def)

text \<open>A reopen that reports success opened a stream at its attempt \<open>k + 1\<close> after \<open>k\<close> failures.\<close>

lemma reopenEventLoop_success:
  assumes "reopenEventLoop i a w = Some (None, a2, w2)"
  shows "\<exists>k. i + k \<le> STREAM_REOPEN_MAX_ATTEMPTS \<and>
           a2 = a\<lparr>eventStream := Some (nOpen w + k)\<rparr> \<and>
           w2 = opened EvOpenEvents (initialEvent a w) ((failedOpen EvOpenEvents ^^ k) w)"
  using assms
proof (induction "Suc STREAM_REOPEN_MAX_ATTEMPTS - i" arbitrary: i w)
  case 0
  then have "\<not> i \<le> STREAM_REOPEN_MAX_ATTEMPTS" by simp
  with "0.prems" show ?case by (simp add: reopenEventLoop_exhausted)
next
  case (Suc n)
  then have le: "i \<le> STREAM_REOPEN_MAX_ATTEMPTS" by simp
  show ?case
  proof (cases "agentClient a")
    case None
    with le Suc.prems show ?thesis by (simp add: reopenEventLoop_panic)
  next
    case (Some c)
    show ?thesis
    proof (cases "openRes w (nOpen w)")
      case None
      with le Some Suc.prems have "a2 = a\<lparr>eventStream := Some (nOpen w)\<rparr>"
        "w2 = opened EvOpenEvents (initialEvent a w) w"
        by (simp_all add: reopenEventLoop_opened)
      then show ?thesis using le by (intro exI[of _ 0]) simp
    next
      case (Some e) note oe = this
      show ?thesis
      proof (cases "doneFirst w (nWait w)")
        case True
        with le \<open>agentClient a = Some c\<close> oe Suc.prems show ?thesis
          by (simp add: reopenEventLoop_cancelled)
      next
        case False
        with le \<open>agentClient a = Some c\<close> oe Suc.prems
        have r: "reopenEventLoop (Suc i) a (failedOpen EvOpenEvents w) = Some (None, a2, w2)"
          by (simp add: reopenEventLoop_retry)
        have "n = Suc STREAM_REOPEN_MAX_ATTEMPTS - Suc i" using Suc.hyps(2) by simp
        from Suc.hyps(1)[OF this r] obtain k where
          k: "Suc i + k \<le> STREAM_REOPEN_MAX_ATTEMPTS"
          "a2 = a\<lparr>eventStream := Some (nOpen (failedOpen EvOpenEvents w) + k)\<rparr>"
          "w2 = opened EvOpenEvents (initialEvent a (failedOpen EvOpenEvents w))
                  ((failedOpen EvOpenEvents ^^ k) (failedOpen EvOpenEvents w))"
          by blast
        show ?thesis
          using k by (intro exI[of _ "Suc k"]) (simp add: funpow_swap1 initialEvent_def)
      qed
    qed
  qed
qed


lemma reopenEventStream_exhausted:
  assumes c: "agentClient a = Some client"
    and o: "\<forall>k<3. openRes w (nOpen w + k) \<noteq> None"
    and d: "\<forall>k<3. \<not> doneFirst w (nWait w + k)"
  shows "reopenEventStream a w =
    Some (Some Canceled, a\<lparr>eventStream := None\<rparr>, (failedOpen EvOpenEvents ^^ 3) w)"
proof -
  from o obtain e0 e1 e2 where o0: "openRes w (nOpen w) = Some e0"
    and o1: "openRes w (Suc (nOpen w)) = Some e1"
    and o2: "openRes w (Suc (Suc (nOpen w))) = Some e2"
    using o[rule_format, of 0] o[rule_format, of 1] o[rule_format, of 2]
    by (auto simp add: numeral_eq_Suc)
  from d have d0: "\<not> doneFirst w (nWait w)" and d1: "\<not> doneFirst w (Suc (nWait w))"
    and d2: "\<not> doneFirst w (Suc (Suc (nWait w)))"
    using d[rule_format, of 0] d[rule_format, of 1] d[rule_format, of 2]
    by (simp_all add: numeral_eq_Suc)
  have m: "Suc 0 \<le> STREAM_REOPEN_MAX_ATTEMPTS" "Suc (Suc 0) \<le> STREAM_REOPEN_MAX_ATTEMPTS"
    "Suc (Suc (Suc 0)) \<le> STREAM_REOPEN_MAX_ATTEMPTS"
    "\<not> Suc (Suc (Suc (Suc 0))) \<le> STREAM_REOPEN_MAX_ATTEMPTS"
    by (simp_all add: STREAM_REOPEN_MAX_ATTEMPTS_def)
  let ?w1 = "failedOpen EvOpenEvents w"
  let ?w2 = "failedOpen EvOpenEvents ?w1"
  let ?w3 = "failedOpen EvOpenEvents ?w2"
  have "reopenEventLoop (Suc 0) a w = reopenEventLoop (Suc (Suc 0)) a ?w1"
    using c o0 d0 by (intro reopenEventLoop_retry[OF m(1)]) simp_all
  also have "\<dots> = reopenEventLoop (Suc (Suc (Suc 0))) a ?w2"
    using c o1 d1 by (intro reopenEventLoop_retry[OF m(2)]) simp_all
  also have "\<dots> = reopenEventLoop (Suc (Suc (Suc (Suc 0)))) a ?w3"
    using c o2 d2 by (intro reopenEventLoop_retry[OF m(3)]) simp_all
  also have "\<dots> = Some (Some Canceled, a\<lparr>eventStream := None\<rparr>, ?w3)"
    by (rule reopenEventLoop_exhausted[OF m(4)])
  finally show ?thesis by (simp add: reopenEventStream_def numeral_eq_Suc)
qed

lemma sendEventData_nil:
  "eventStream a = None \<Longrightarrow> sendEventData a f w = Some (None, a, w)"
  by (simp add: sendEventData_def)

lemma sendEventData_retransmit:
  assumes s0: "eventStream a = Some s0"
    and fail: "sendRes w (nSend w) = Some err"
    and ok: "map_option fst (reopenEventStream a (logf Warn (snd (Send s0 (Event f) w)))) = Some None"
  shows "\<exists>k s1 a' w'. k < STREAM_REOPEN_MAX_ATTEMPTS \<and>
           sendEventData a f w = Some (Some err, a', w') \<and>
           eventStream a' = Some s1 \<and>
           nOpen w' = nOpen w + k + 1 \<and>
           nSend w' = nSend w + 3 \<and>
           trace w' = trace w @ [EvSend s0 (Event f), EvLog Warn]
             @ concat (replicate k [EvOpenEvents, EvLog Warn, EvWait STREAM_REOPEN_DELAY_MS])
             @ [EvOpenEvents, EvLog Info, EvSend s1 (initialEvent a w)]
             @ (if sendRes w (nSend w + 1) \<noteq> None then [EvLog Warn] else [])
             @ [EvSend s1 (Event f)]"
proof -
  let ?v = "logf Warn (snd (Send s0 (Event f) w))"
  from ok obtain a2 w2 where r: "reopenEventStream a ?v = Some (None, a2, w2)"
    by (cases "reopenEventStream a ?v") auto
  then have "reopenEventLoop (Suc 0) a ?v = Some (None, a2, w2)"
    by (simp add: reopenEventStream_def)
  from reopenEventLoop_success[OF this] obtain k where
    k: "Suc 0 + k \<le> STREAM_REOPEN_MAX_ATTEMPTS"
    and a2: "a2 = a\<lparr>eventStream := Some (nOpen ?v + k)\<rparr>"
    and w2: "w2 = opened EvOpenEvents (initialEvent a ?v) ((failedOpen EvOpenEvents ^^ k) ?v)"
    by blast
  have w0: "nOpen ?v = nOpen w" "nSend ?v = Suc (nSend w)" "sendRes ?v = sendRes w"
    "trace ?v = trace w @ [EvSend s0 (Event f), EvLog Warn]" "nowMs ?v = nowMs w"
    by (simp_all add: logf_def Send_def)
  let ?w' = "snd (Send (nOpen w + k) (Event f) w2)"
  have res: "sendEventData a f w = Some (Some err, a2, ?w')"
    using s0 fail r a2 w0 by (simp add: sendEventData_def Send_def)
  have tr: "trace ?w' = trace w @ [EvSend s0 (Event f), EvLog Warn]
             @ concat (replicate k [EvOpenEvents, EvLog Warn, EvWait STREAM_REOPEN_DELAY_MS])
             @ [EvOpenEvents, EvLog Info, EvSend (nOpen w + k) (initialEvent a w)]
             @ (if sendRes w (nSend w + 1) \<noteq> None then [EvLog Warn] else [])
             @ [EvSend (nOpen w + k) (Event f)]"
    using w0 by (simp add: w2 Send_def opened_def trace_failedOpen_pow initialEvent_def)
  have cnt: "nOpen ?w' = nOpen w + k + 1" "nSend ?w' = nSend w + 3"
    using w0 by (simp_all add: w2 Send_def opened_def)
  show ?thesis
    using k res tr cnt a2 w0
    by (intro exI[of _ k] exI[of _ "nOpen w + k"] exI[of _ a2] exI[of _ ?w']) simp
qed

lemma sendEventData_exhausted:
  assumes "eventStream a = Some s0" "agentClient a = Some client"
    "sendRes w (nSend w) = Some err"
    "\<forall>k<3. openRes w (nOpen w + k) \<noteq> None" "\<forall>k<3. \<not> doneFirst w (nWait w + k)"
  shows "sendEventData a f w =
    Some (Some err, a\<lparr>eventStream := None\<rparr>,
          (failedOpen EvOpenEvents ^^ 3) (logf Warn (snd (Send s0 (Event f) w))))"
proof -
  let ?v = "logf Warn (snd (Send s0 (Event f) w))"
  have "reopenEventStream a ?v =
      Some (Some Canceled, a\<lparr>eventStream := None\<rparr>, (failedOpen EvOpenEvents ^^ 3) ?v)"
    using assms
    by (intro reopenEventStream_exhausted[of a client]) (simp_all add: logf_def Send_def)
  with assms show ?thesis
    by (simp add: sendEventData_def Send_def)
qed

text \<open>
  Claim C10. When \<open>reopenFrameStream\<close> or \<open>reopenEventStream\<close> uses up its three
  attempts (each open fails, no wait is cut short by the context), it sets the stream
  handle to nil and returns \<open>context.Canceled\<close>, whatever errors the opens returned;
  a reopen cut short by a cancelled context whose \<open>Err()\<close> is \<open>context.Canceled\<close>
  returns the same error, so the returned error does not tell the two apart.
\<close>

theorem reopen_exhaustion_returns_Canceled:
  "(agentClient a = Some client \<and>
    (\<forall>k<3. openRes w (nOpen w + k) \<noteq> None) \<and> (\<forall>k<3. \<not> doneFirst w (nWait w + k))
    \<longrightarrow> reopenFrameStream a w =
          Some (Some Canceled, a\<lparr>frameStream := None\<rparr>, (failedOpen EvOpenFrames ^^ 3) w) \<and>
        reopenEventStream a w =
          Some (Some Canceled, a\<lparr>eventStream := None\<rparr>, (failedOpen EvOpenEvents ^^ 3) w))
   \<and>
   (agentClient a = Some client \<and> openRes w (nOpen w) \<noteq> None \<and> doneFirst w (nWait w) \<and>
    ctxErr w = Canceled
    \<longrightarrow> reopenFrameStream a w = Some (Some Canceled, a, failedOpen EvOpenFrames w) \<and>
        reopenEventStream a w = Some (Some Canceled, a, failedOpen EvOpenEvents w))"
proof (intro conjI impI)
  assume h: "agentClient a = Some client \<and>
    (\<forall>k<3. openRes w (nOpen w + k) \<noteq> None) \<and> (\<forall>k<3. \<not> doneFirst w (nWait w + k))"
  then show "reopenFrameStream a w =
      Some (Some Canceled, a\<lparr>frameStream := None\<rparr>, (failedOpen EvOpenFrames ^^ 3) w)"
    by (intro reopenFrameStream_exhausted[of a client w]) simp_all
  from h show "reopenEventStream a w =
      Some (Some Canceled, a\<lparr>eventStream := None\<rparr>, (failedOpen EvOpenEvents ^^ 3) w)"
    by (intro reopenEventStream_exhausted[of a client w]) simp_all
next
  assume h: "agentClient a = Some client \<and> openRes w (nOpen w) \<noteq> None \<and>
    doneFirst w (nWait w) \<and> ctxErr w = Canceled"
  then obtain e where e: "openRes w (nOpen w) = Some e" by auto
  have m: "Suc 0 \<le> STREAM_REOPEN_MAX_ATTEMPTS" by (simp add: STREAM_REOPEN_MAX_ATTEMPTS_def)
  from h e show "reopenFrameStream a w = Some (Some Canceled, a, failedOpen EvOpenFrames w)"
    using reopenFrameLoop_cancelled[OF m, of a client w e] by (simp add: reopenFrameStream_def)
  from h e show "reopenEventStream a w = Some (Some Canceled, a, failedOpen EvOpenEvents w)"
    using reopenEventLoop_cancelled[OF m, of a client w e] by (simp add: reopenEventStream_def)
qed

theorem reopen_exhaustion_returns_Canceled_witness:
  "agentClient exAgent = Some 0 \<and>
   openRes (exWorld noFail allFail noFail never) 0 \<noteq> None \<and>
   openRes (exWorld noFail allFail noFail never) 1 \<noteq> None \<and>
   openRes (exWorld noFail allFail noFail never) 2 \<noteq> None \<and>
   nOpen (exWorld noFail allFail noFail never) = 0 \<and>
   map_option fst (reopenFrameStream exAgent
       (exWorld noFail allFail noFail never)) = Some (Some Canceled) \<and>
   map_option (frameStream \<circ> fst \<circ> snd) (reopenFrameStream exAgent
       (exWorld noFail allFail noFail never)) = Some None \<and>
   map_option fst (reopenEventStream exAgent
       (exWorld noFail allFail noFail never)) = Some (Some Canceled) \<and>
   openRes (exWorld noFail allFail noFail atOnce) 0 \<noteq> None \<and>
   doneFirst (exWorld noFail allFail noFail atOnce) 0 \<and>
   map_option fst (reopenFrameStream exAgent
       (exWorld noFail allFail noFail atOnce)) = Some (Some Canceled) \<and>
   map_option fst (reopenEventStream exAgent
       (exWorld noFail allFail noFail atOnce)) = Some (Some Canceled)"
  using reopen_exhaustion_returns_Canceled
          [of exAgent 0 "exWorld noFail allFail noFail never"]
        reopen_exhaustion_returns_Canceled
          [of exAgent 0 "exWorld noFail allFail noFail atOnce"]
  by (simp add: exAgent_def exWorld_def noFail_def allFail_def never_def atOnce_def)

text \<open>
  Claim C1. If the first \<open>Send\<close> on the current handle fails with \<open>err\<close> and the
  reopen that follows succeeds, then \<open>sendFrameData\<close> (and likewise
  \<open>sendEventData\<close>) returns \<open>err\<close>, and the calls it makes are exactly: the failed
  send, one run of the reopen routine (\<open>k < 3\<close> failed opens, the open that succeeds
  and its handshake), and one more send of the same payload on the new stream, after
  which nothing follows. Nothing is assumed about the result of that last send.
\<close>

theorem send_retransmits_exactly_once:
  "(frameStream a = Some s0 \<and> sendRes w (nSend w) = Some err \<and>
    map_option fst (reopenFrameStream a (logf Warn (snd (Send s0 (Frame f) w)))) = Some None
    \<longrightarrow> (\<exists>k s1 a' w'. k < STREAM_REOPEN_MAX_ATTEMPTS \<and>
           sendFrameData a f w = Some (Some err, a', w') \<and>
           frameStream a' = Some s1 \<and>
           nOpen w' = nOpen w + k + 1 \<and>
           nSend w' = nSend w + 3 \<and>
           trace w' = trace w @ [EvSend s0 (Frame f), EvLog Warn]
             @ concat (replicate k [EvOpenFrames, EvLog Warn, EvWait STREAM_REOPEN_DELAY_MS])
             @ [EvOpenFrames, EvLog Info, EvSend s1 (initialFrame a w)]
             @ (if sendRes w (nSend w + 1) \<noteq> None then [EvLog Warn] else [])
             @ [EvSend s1 (Frame f)]))
   \<and>
   (eventStream a = Some s0 \<and> sendRes w (nSend w) = Some err \<and>
    map_option fst (reopenEventStream a (logf Warn (snd (Send s0 (Event e) w)))) = Some None
    \<longrightarrow> (\<exists>k s1 a' w'. k < STREAM_REOPEN_MAX_ATTEMPTS \<and>
           sendEventData a e w = Some (Some err, a', w') \<and>
           eventStream a' = Some s1 \<and>
           nOpen w' = nOpen w + k + 1 \<and>
           nSend w' = nSend w + 3 \<and>
           trace w' = trace w @ [EvSend s0 (Event e), EvLog Warn]
             @ concat (replicate k [EvOpenEvents, EvLog Warn, EvWait STREAM_REOPEN_DELAY_MS])
             @ [EvOpenEvents, EvLog Info, EvSend s1 (initialEvent a w)]
             @ (if sendRes w (nSend w + 1) \<noteq> None then [EvLog Warn] else [])
             @ [EvSend s1 (Event e)]))"
  using sendFrameData_retransmit[of a s0 w err f] sendEventData_retransmit[of a s0 w err e]
  by blast

text \<open>
  The witness: the first send fails, the first open succeeds, the handshake goes
  through and the retransmission fails as well; the call still returns the first error
  after three sends and one open.
\<close>

theorem send_retransmits_exactly_once_witness:
  "frameStream exAgent = Some 0 \<and>
   sendRes (exWorld noFail noFail failButSecond never) 0
     = Some (OtherError 7) \<and>
   sendRes (exWorld noFail noFail failButSecond never) 2
     = Some (OtherError 7) \<and>
   (\<exists>a' w'. sendFrameData exAgent exFrame
        (exWorld noFail noFail failButSecond never)
        = Some (Some (OtherError 7), a', w') \<and> nSend w' = 3) \<and>
   (\<exists>a' w'. sendEventData exAgent exEvent
        (exWorld noFail noFail failButSecond never)
        = Some (Some (OtherError 7), a', w') \<and> nSend w' = 3)"
proof -
  let ?w = "exWorld noFail noFail failButSecond never"
  have m: "Suc 0 \<le> STREAM_REOPEN_MAX_ATTEMPTS" by (simp add: STREAM_REOPEN_MAX_ATTEMPTS_def)
  have hf: "map_option fst (reopenFrameStream exAgent (logf Warn (snd (Send 0 (Frame exFrame) ?w)))) = Some None"
    by (simp add: reopenFrameStream_def reopenFrameLoop_opened[OF m, of _ 0]
          exAgent_def exWorld_def logf_def Send_def noFail_def failButSecond_def never_def)
  have he: "map_option fst (reopenEventStream exAgent (logf Warn (snd (Send 1 (Event exEvent) ?w)))) = Some None"
    by (simp add: reopenEventStream_def reopenEventLoop_opened[OF m, of _ 0]
          exAgent_def exWorld_def logf_def Send_def noFail_def failButSecond_def never_def)
  have s: "frameStream exAgent = Some 0" "eventStream exAgent = Some 1"
    "sendRes ?w (nSend ?w) = Some (OtherError 7)" "sendRes ?w 2 = Some (OtherError 7)" "nSend ?w = 0"
    by (simp_all add: exAgent_def exWorld_def failButSecond_def)
  from send_retransmits_exactly_once[of exAgent 0 ?w "OtherError 7" exFrame exEvent]
    send_retransmits_exactly_once[of exAgent 1 ?w "OtherError 7" exFrame exEvent] hf he s
  show ?thesis by (simp del: not_None_eq) blast
qed

text \<open>
  Claim C8, as amended. A send on a nil handle drops the payload: it returns no error,
  makes no call at all (in particular no attempt to reopen) and leaves the agent as it
  is, so the handle stays nil over any number of sends. A send whose reopen runs out of
  attempts leaves the handle nil.
\<close>

theorem send_on_nil_stream_is_dropped:
  "(frameStream a = None \<longrightarrow> sendFrameData a f w = Some (None, a, w)) \<and>
   (eventStream a = None \<longrightarrow> sendEventData a e w = Some (None, a, w)) \<and>
   (frameStream a = Some s0 \<and> agentClient a = Some client \<and> sendRes w (nSend w) = Some err \<and>
    (\<forall>k<3. openRes w (nOpen w + k) \<noteq> None) \<and> (\<forall>k<3. \<not> doneFirst w (nWait w + k))
    \<longrightarrow> (\<exists>w'. sendFrameData a f w = Some (Some err, a\<lparr>frameStream := None\<rparr>, w') \<and>
              sendFrameData (a\<lparr>frameStream := None\<rparr>) f w'
                = Some (None, a\<lparr>frameStream := None\<rparr>, w'))) \<and>
   (eventStream a = Some s0 \<and> agentClient a = Some client \<and> sendRes w (nSend w) = Some err \<and>
    (\<forall>k<3. openRes w (nOpen w + k) \<noteq> None) \<and> (\<forall>k<3. \<not> doneFirst w (nWait w + k))
    \<longrightarrow> (\<exists>w'. sendEventData a e w = Some (Some err, a\<lparr>eventStream := None\<rparr>, w') \<and>
              sendEventData (a\<lparr>eventStream := None\<rparr>) e w'
                = Some (None, a\<lparr>eventStream := None\<rparr>, w')))"
proof (intro conjI impI)
  show "frameStream a = None \<Longrightarrow> sendFrameData a f w = Some (None, a, w)"
    by (rule sendFrameData_nil)
  show "eventStream a = None \<Longrightarrow> sendEventData a e w = Some (None, a, w)"
    by (rule sendEventData_nil)
next
  assume h: "frameStream a = Some s0 \<and> agentClient a = Some client \<and>
    sendRes w (nSend w) = Some err \<and>
    (\<forall>k<3. openRes w (nOpen w + k) \<noteq> None) \<and> (\<forall>k<3. \<not> doneFirst w (nWait w + k))"
  then show "\<exists>w'. sendFrameData a f w = Some (Some err, a\<lparr>frameStream := None\<rparr>, w') \<and>
      sendFrameData (a\<lparr>frameStream := None\<rparr>) f w' = Some (None, a\<lparr>frameStream := None\<rparr>, w')"
    by (simp add: sendFrameData_exhausted[of a s0 client w err] sendFrameData_nil)
next
  assume h: "eventStream a = Some s0 \<and> agentClient a = Some client \<and>
    sendRes w (nSend w) = Some err \<and>
    (\<forall>k<3. openRes w (nOpen w + k) \<noteq> None) \<and> (\<forall>k<3. \<not> doneFirst w (nWait w + k))"
  then show "\<exists>w'. sendEventData a e w = Some (Some err, a\<lparr>eventStream := None\<rparr>, w') \<and>
      sendEventData (a\<lparr>eventStream := None\<rparr>) e w' = Some (None, a\<lparr>eventStream := None\<rparr>, w')"
    by (simp add: sendEventData_exhausted[of a s0 client w err] sendEventData_nil)
qed

theorem send_on_nil_stream_is_dropped_witness:
  "frameStream exIdle = None \<and> eventStream exIdle = None \<and>
   sendFrameData exIdle exFrame (exWorld noFail noFail noFail never)
     = Some (None, exIdle, exWorld noFail noFail noFail never) \<and>
   sendEventData exIdle exEvent (exWorld noFail noFail noFail never)
     = Some (None, exIdle, exWorld noFail noFail noFail never) \<and>
   frameStream exAgent = Some 0 \<and> eventStream exAgent = Some 1 \<and>
   agentClient exAgent = Some 0 \<and>
   sendRes (exWorld noFail allFail allFail never) (nSend (exWorld noFail allFail allFail never))
     = Some (OtherError 0) \<and>
   map_option (frameStream \<circ> fst \<circ> snd)
     (sendFrameData exAgent exFrame (exWorld noFail allFail allFail never)) = Some None \<and>
   map_option (eventStream \<circ> fst \<circ> snd)
     (sendEventData exAgent exEvent (exWorld noFail allFail allFail never)) = Some None"
proof -
  let ?w = "exWorld noFail allFail allFail never"
  have h: "frameStream exAgent = Some 0" "eventStream exAgent = Some 1"
    "agentClient exAgent = Some 0" "sendRes ?w (nSend ?w) = Some (OtherError 0)"
    "\<forall>k<3. openRes ?w (nOpen ?w + k) \<noteq> None" "\<forall>k<3. \<not> doneFirst ?w (nWait ?w + k)"
    "frameStream exIdle = None" "eventStream exIdle = None"
    by (simp_all add: exAgent_def exIdle_def exWorld_def allFail_def never_def)
  from send_on_nil_stream_is_dropped
         [of exIdle exFrame "exWorld noFail noFail noFail never" exEvent 0 0 "OtherError 0"]
       send_on_nil_stream_is_dropped[of exAgent exFrame ?w exEvent 0 0 "OtherError 0"]
       send_on_nil_stream_is_dropped[of exAgent exFrame ?w exEvent 1 0 "OtherError 0"]
       h
  show ?thesis by (simp del: not_None_eq) fastforce
qed

text \<open>
  Claim C8 as stated fails: after a reopen has run out of attempts, the next send does
  not try to reopen. In the world where every send and every open fails, the first
  send leaves the handle nil after three opens; the second send returns no error and
  makes no further open or send.
\<close>

theorem send_after_exhaustion_counterexample:
  "frameStream (fst exDisabled) = None \<and>
   nOpen (snd exDisabled) = 3 \<and> nSend (snd exDisabled) = 1 \<and>
   map_option fst (sendFrameData (fst exDisabled) exFrame (snd exDisabled)) = Some None \<and>
   map_option (frameStream \<circ> fst \<circ> snd) (sendFrameData (fst exDisabled) exFrame (snd exDisabled))
     = Some None \<and>
   map_option (nOpen \<circ> snd \<circ> snd) (sendFrameData (fst exDisabled) exFrame (snd exDisabled))
     = Some 3 \<and>
   map_option (nSend \<circ> snd \<circ> snd) (sendFrameData (fst exDisabled) exFrame (snd exDisabled))
     = Some 1"
proof -
  let ?w = "exWorld noFail allFail allFail never"
  let ?v = "logf Warn (snd (Send 0 (Frame exFrame) ?w))"
  have "sendFrameData exAgent exFrame ?w =
      Some (Some (OtherError 0), exAgent\<lparr>frameStream := None\<rparr>, (failedOpen EvOpenFrames ^^ 3) ?v)"
    by (intro sendFrameData_exhausted[of exAgent 0 0])
       (simp_all add: exAgent_def exWorld_def allFail_def never_def)
  then have d: "exDisabled = (exAgent\<lparr>frameStream := None\<rparr>, (failedOpen EvOpenFrames ^^ 3) ?v)"
    by (simp add: exDisabled_def)
  show ?thesis
    by (simp add: d sendFrameData_nil exWorld_def logf_def Send_def)
qed

section \<open>Connection manager: the dial loop\<close>

lemma failedDial_fields [simp]:
  "dialRes (failedDial s w) = dialRes w"
  "doneFirst (failedDial s w) = doneFirst w"
  "ctxErr (failedDial s w) = ctxErr w"
  "nDial (failedDial s w) = Suc (nDial w)"
  "nWait (failedDial s w) = Suc (nWait w)"
  "trace (failedDial s w) = trace w @ [EvDial s, EvLog Warn, EvWait GRPC_RETRY_DELAY_MS]"
  by (simp_all add: failedDial_def)

lemma failedDial_pow_fields [simp]:
  "dialRes ((failedDial s ^^ k) w) = dialRes w"
  "doneFirst ((failedDial s ^^ k) w) = doneFirst w"
  "ctxErr ((failedDial s ^^ k) w) = ctxErr w"
  "nDial ((failedDial s ^^ k) w) = nDial w + k"
  "nWait ((failedDial s ^^ k) w) = nWait w + k"
  by (induction k) simp_all

lemma trace_failedDial_pow:
  "trace ((failedDial s ^^ k) w) =
     trace w @ concat (replicate k [EvDial s, EvLog Warn, EvWait GRPC_RETRY_DELAY_MS])"
proof (induction k)
  case 0
  show ?case by simp
next
  case (Suc k)
  have "trace ((failedDial s ^^ Suc k) w) =
      trace w @ (concat (replicate k [EvDial s, EvLog Warn, EvWait GRPC_RETRY_DELAY_MS])
        @ [EvDial s, EvLog Warn, EvWait GRPC_RETRY_DELAY_MS])"
    by (simp add: Suc.IH)
  also have "\<dots> = trace w @ concat (replicate (Suc k) [EvDial s, EvLog Warn, EvWait GRPC_RETRY_DELAY_MS])"
    by (simp only: concat_replicate_comm replicate_Suc concat.simps)
  finally show ?case .
qed

lemma connectLoop_retry:
  assumes "attempt \<le> GRPC_CONNECT_MAX_ATTEMPTS"
    "dialRes w (nDial w) = Some e" "\<not> doneFirst w (nWait w)"
  shows "connectLoop s attempt l a w = connectLoop s (Suc attempt) (Some e) a (failedDial s w)"
  using assms
  by (subst connectLoop.simps)
     (simp add: DialContext_def logf_def selectAfterOrDone_def failedDial_def)

lemma connectLoop_cancelled:
  assumes "attempt \<le> GRPC_CONNECT_MAX_ATTEMPTS"
    "dialRes w (nDial w) = Some e" "doneFirst w (nWait w)"
  shows "connectLoop s attempt l a w = (Some (ctxErr w), a, failedDial s w)"
  using assms
  by (subst connectLoop.simps)
     (simp add: DialContext_def logf_def selectAfterOrDone_def failedDial_def)

lemma connectLoop_connected:
  assumes "attempt \<le> GRPC_CONNECT_MAX_ATTEMPTS" "dialRes w (nDial w) = None"
  shows "connectLoop s attempt l a w =
    (None, a\<lparr>grpcConn := Some (nDial w), agentClient := Some (nDial w)\<rparr>, connected s w)"
  using assms
  by (subst connectLoop.simps) (simp add: DialContext_def logf_def connected_def)

lemma connectLoop_exhausted:
  assumes "\<not> attempt \<le> GRPC_CONNECT_MAX_ATTEMPTS"
  shows "connectLoop s attempt l a w = (l, a, w)"
  using assms by (subst connectLoop.simps) simp

text \<open>\<open>k\<close> failed dials in a row, none of whose waits is cut short, lead to attempt
  \<open>attempt + k\<close> with the error of the last of them in \<open>lastErr\<close>.\<close>

lemma connectLoop_failures:
  assumes "attempt + k \<le> Suc GRPC_CONNECT_MAX_ATTEMPTS"
    and "\<forall>j<k. dialRes w (nDial w + j) \<noteq> None \<and> \<not> doneFirst w (nWait w + j)"
  shows "connectLoop s attempt l a w =
     connectLoop s (attempt + k) (if k = 0 then l else dialRes w (nDial w + k - 1)) a
       ((failedDial s ^^ k) w)"
  using assms
proof (induction k arbitrary: attempt l w)
  case 0
  show ?case by simp
next
  case (Suc k)
  from Suc.prems(2) have "dialRes w (nDial w) \<noteq> None" "\<not> doneFirst w (nWait w)"
    by force+
  then obtain e where e: "dialRes w (nDial w) = Some e" by auto
  have le: "attempt \<le> GRPC_CONNECT_MAX_ATTEMPTS" using Suc.prems(1) by simp
  have step: "connectLoop s attempt l a w = connectLoop s (Suc attempt) (Some e) a (failedDial s w)"
    using le e \<open>\<not> doneFirst w (nWait w)\<close> by (rule connectLoop_retry)
  have rest: "\<forall>j<k. dialRes (failedDial s w) (nDial (failedDial s w) + j) \<noteq> None \<and>
                   \<not> doneFirst (failedDial s w) (nWait (failedDial s w) + j)"
  proof (intro allI impI)
    fix j assume "j < k"
    then have "Suc j < Suc k" by simp
    with Suc.prems(2) have "dialRes w (nDial w + Suc j) \<noteq> None \<and> \<not> doneFirst w (nWait w + Suc j)"
      by blast
    then show "dialRes (failedDial s w) (nDial (failedDial s w) + j) \<noteq> None \<and>
               \<not> doneFirst (failedDial s w) (nWait (failedDial s w) + j)"
      by simp
  qed
  have "connectLoop s (Suc attempt) (Some e) a (failedDial s w) =
      connectLoop s (Suc attempt + k)
        (if k = 0 then Some e else dialRes (failedDial s w) (nDial (failedDial s w) + k - 1)) a
        ((failedDial s ^^ k) (failedDial s w))"
    using Suc.prems(1) rest by (intro Suc.IH) simp_all
  also have "(if k = 0 then Some e else dialRes (failedDial s w) (nDial (failedDial s w) + k - 1))
      = dialRes w (nDial w + Suc k - 1)"
    using e by (cases k) simp_all
  finally show ?case
    using step by (simp add: funpow_swap1)
qed

lemma connectLoop_dial_bound:
  "nDial (snd (snd (connectLoop s attempt l a w))) \<le>
     nDial w + (Suc GRPC_CONNECT_MAX_ATTEMPTS - attempt)"
proof (induction "Suc GRPC_CONNECT_MAX_ATTEMPTS - attempt" arbitrary: attempt l w)
  case 0
  then have "\<not> attempt \<le> GRPC_CONNECT_MAX_ATTEMPTS" by simp
  then show ?case by (simp add: connectLoop_exhausted)
next
  case (Suc n)
  then have le: "attempt \<le> GRPC_CONNECT_MAX_ATTEMPTS" by simp
  show ?case
  proof (cases "dialRes w (nDial w)")
    case None
    with le show ?thesis by (simp add: connectLoop_connected connected_def)
  next
    case (Some e)
    show ?thesis
    proof (cases "doneFirst w (nWait w)")
      case True
      with le Some show ?thesis by (simp add: connectLoop_cancelled)
    next
      case False
      have "n = Suc GRPC_CONNECT_MAX_ATTEMPTS - Suc attempt" using Suc.hyps(2) by simp
      from Suc.hyps(1)[OF this, of "Some e" "failedDial s w"] le Some False
      show ?thesis by (simp add: connectLoop_retry)
    qed
  qed
qed

text \<open>
  Claim C2, as amended. Let \<open>k \<le> 5\<close> dials in a row fail with every wait after them
  running its full 1000 ms. If \<open>k < 5\<close> and the next dial succeeds, \<open>connectGRPC\<close>
  stores the connection and the client and returns nil at once; if \<open>k < 5\<close> and the
  next dial fails and the wait after it is cut short by the context, it returns
  \<open>ctx.Err()\<close>, and this includes the wait after the fifth dial; if \<open>k = 5\<close> it
  returns the error of the fifth dial. Every dial goes to the configured address, each
  failed dial is followed by a warning and a wait of 1000 ms, and no run dials more
  than five times.
\<close>

theorem connectGRPC_outcomes:
  assumes "k \<le> GRPC_CONNECT_MAX_ATTEMPTS"
    and "\<forall>j<k. dialRes w (nDial w + j) \<noteq> None \<and> \<not> doneFirst w (nWait w + j)"
  shows "(k < GRPC_CONNECT_MAX_ATTEMPTS \<and> dialRes w (nDial w + k) = None \<longrightarrow>
            connectGRPC h a w =
              (None, a\<lparr>grpcConn := Some (nDial w + k), agentClient := Some (nDial w + k)\<rparr>,
               connected (ServerAddr (configs h (cfg a)))
                 ((failedDial (ServerAddr (configs h (cfg a))) ^^ k) w))) \<and>
         (k < GRPC_CONNECT_MAX_ATTEMPTS \<and> dialRes w (nDial w + k) \<noteq> None \<and>
          doneFirst w (nWait w + k) \<longrightarrow>
            connectGRPC h a w =
              (Some (ctxErr w), a, (failedDial (ServerAddr (configs h (cfg a))) ^^ Suc k) w)) \<and>
         (k = GRPC_CONNECT_MAX_ATTEMPTS \<longrightarrow>
            connectGRPC h a w =
              (dialRes w (nDial w + 4), a, (failedDial (ServerAddr (configs h (cfg a))) ^^ 5) w)) \<and>
         nDial (snd (snd (connectGRPC h a w))) \<le> nDial w + GRPC_CONNECT_MAX_ATTEMPTS"
proof -
  let ?s = "ServerAddr (configs h (cfg a))"
  let ?wk = "(failedDial ?s ^^ k) w"
  have run: "connectGRPC h a w =
      connectLoop ?s (Suc k) (if k = 0 then None else dialRes w (nDial w + k - 1)) a ?wk"
    using connectLoop_failures[of "Suc 0" k w ?s None a] assms
    by (simp add: connectGRPC_def)
  have A: "connectGRPC h a w =
      (None, a\<lparr>grpcConn := Some (nDial w + k), agentClient := Some (nDial w + k)\<rparr>, connected ?s ?wk)"
    if "k < GRPC_CONNECT_MAX_ATTEMPTS" "dialRes w (nDial w + k) = None"
    using that connectLoop_connected[of "Suc k" ?wk ?s _ a] by (simp add: run)
  have B: "connectGRPC h a w = (Some (ctxErr w), a, (failedDial ?s ^^ Suc k) w)"
    if "k < GRPC_CONNECT_MAX_ATTEMPTS" "dialRes w (nDial w + k) \<noteq> None" "doneFirst w (nWait w + k)"
  proof -
    from that(2) obtain e where "dialRes w (nDial w + k) = Some e" by auto
    with that connectLoop_cancelled[of "Suc k" ?wk e ?s _ a] show ?thesis by (simp add: run)
  qed
  have C: "connectGRPC h a w = (dialRes w (nDial w + 4), a, (failedDial ?s ^^ 5) w)"
    if "k = GRPC_CONNECT_MAX_ATTEMPTS"
    using that connectLoop_exhausted[of "Suc k" ?s _ a ?wk]
    by (simp add: run GRPC_CONNECT_MAX_ATTEMPTS_def add.commute)
  have D: "nDial (snd (snd (connectGRPC h a w))) \<le> nDial w + GRPC_CONNECT_MAX_ATTEMPTS"
    using connectLoop_dial_bound[of ?s "Suc 0" None a w] by (simp add: connectGRPC_def)
  from A B C D show ?thesis by blast
qed

text \<open>
  The witness. Where every dial fails and no wait is cut short (\<open>k = 5\<close>), the
  fifth error is returned after five dials, each followed by a wait of 1000 ms. Where
  the first dial succeeds (\<open>k = 0\<close>), the connection is stored. Where the first dial
  fails and the context is cancelled during the first wait (\<open>k = 0\<close>), the context's
  error is returned after one dial.
\<close>

theorem connectGRPC_outcomes_witness:
  "fst (connectGRPC exHeap exIdle (exWorld allFail noFail noFail never)) = Some (OtherError 4) \<and>
   nDial (snd (snd (connectGRPC exHeap exIdle (exWorld allFail noFail noFail never)))) = 5 \<and>
   trace (snd (snd (connectGRPC exHeap exIdle (exWorld allFail noFail noFail never))))
     = concat (replicate 5 [EvDial ''localhost:50051'', EvLog Warn, EvWait 1000]) \<and>
   fst (connectGRPC exHeap exIdle (exWorld noFail noFail noFail never)) = None \<and>
   grpcConn (fst (snd (connectGRPC exHeap exIdle (exWorld noFail noFail noFail never)))) = Some 0 \<and>
   agentClient (fst (snd (connectGRPC exHeap exIdle (exWorld noFail noFail noFail never)))) = Some 0 \<and>
   trace (snd (snd (connectGRPC exHeap exIdle (exWorld noFail noFail noFail never))))
     = [EvDial ''localhost:50051'', EvLog Info] \<and>
   fst (connectGRPC exHeap exIdle (exWorld allFail noFail noFail atOnce)) = Some Canceled \<and>
   nDial (snd (snd (connectGRPC exHeap exIdle (exWorld allFail noFail noFail atOnce)))) = 1"
proof -
  have h5: "\<forall>j<5. dialRes (exWorld allFail noFail noFail never)
               (nDial (exWorld allFail noFail noFail never) + j) \<noteq> None \<and>
             \<not> doneFirst (exWorld allFail noFail noFail never)
               (nWait (exWorld allFail noFail noFail never) + j)"
    by (simp add: exWorld_def allFail_def never_def)
  have h0: "\<forall>j<0. dialRes (exWorld noFail noFail noFail never)
               (nDial (exWorld noFail noFail noFail never) + j) \<noteq> None \<and>
             \<not> doneFirst (exWorld noFail noFail noFail never)
               (nWait (exWorld noFail noFail noFail never) + j)"
    by simp
  have hc: "\<forall>j<0. dialRes (exWorld allFail noFail noFail atOnce)
               (nDial (exWorld allFail noFail noFail atOnce) + j) \<noteq> None \<and>
             \<not> doneFirst (exWorld allFail noFail noFail atOnce)
               (nWait (exWorld allFail noFail noFail atOnce) + j)"
    by simp
  have s: "ServerAddr (configs exHeap (cfg exIdle)) = ''localhost:50051''"
    by (simp add: exHeap_def exConfig_def)
  from connectGRPC_outcomes[of 5 "exWorld allFail noFail noFail never" exHeap exIdle, OF _ h5]
  have a: "connectGRPC exHeap exIdle (exWorld allFail noFail noFail never) =
      (Some (OtherError 4), exIdle,
       (failedDial ''localhost:50051'' ^^ 5) (exWorld allFail noFail noFail never))"
    by (simp add: GRPC_CONNECT_MAX_ATTEMPTS_def s exWorld_def allFail_def)
  from connectGRPC_outcomes[of 0 "exWorld noFail noFail noFail never" exHeap exIdle, OF _ h0]
  have b: "connectGRPC exHeap exIdle (exWorld noFail noFail noFail never) =
      (None, exIdle\<lparr>grpcConn := Some 0, agentClient := Some 0\<rparr>,
       connected ''localhost:50051'' (exWorld noFail noFail noFail never))"
    by (simp add: GRPC_CONNECT_MAX_ATTEMPTS_def s exWorld_def noFail_def)
  from connectGRPC_outcomes[of 0 "exWorld allFail noFail noFail atOnce" exHeap exIdle, OF _ hc]
  have c: "connectGRPC exHeap exIdle (exWorld allFail noFail noFail atOnce) =
      (Some Canceled, exIdle, failedDial ''localhost:50051'' (exWorld allFail noFail noFail atOnce))"
    by (simp add: GRPC_CONNECT_MAX_ATTEMPTS_def s exWorld_def allFail_def atOnce_def)
  show ?thesis
    unfolding a b c
    by (simp add: trace_failedDial_pow connected_def exWorld_def GRPC_RETRY_DELAY_MS_def)
qed

text \<open>
  Claim C2 as stated fails: when all five dials fail and the context is cancelled
  during the wait that follows the fifth, the result is the context's error and not
  the last dial error.
\<close>

theorem connectGRPC_fifth_wait_counterexample:
  "dialRes (exWorld allFail noFail noFail atFifth) 4 = Some (OtherError 4) \<and>
   nDial (snd (snd (connectGRPC exHeap exIdle (exWorld allFail noFail noFail atFifth)))) = 5 \<and>
   fst (connectGRPC exHeap exIdle (exWorld allFail noFail noFail atFifth)) = Some Canceled \<and>
   fst (connectGRPC exHeap exIdle (exWorld allFail noFail noFail atFifth)) \<noteq> Some (OtherError 4)"
proof -
  let ?w = "exWorld allFail noFail noFail atFifth"
  let ?s = "ServerAddr (configs exHeap (cfg exIdle))"
  have f: "\<forall>j<4. dialRes ?w (nDial ?w + j) \<noteq> None \<and> \<not> doneFirst ?w (nWait ?w + j)"
    by (simp add: exWorld_def allFail_def atFifth_def)
  have "connectGRPC exHeap exIdle ?w =
      connectLoop ?s 5 (dialRes ?w (nDial ?w + 4 - 1)) exIdle ((failedDial ?s ^^ 4) ?w)"
    using connectLoop_failures[of "Suc 0" 4 ?w ?s None exIdle] f
    by (simp add: connectGRPC_def GRPC_CONNECT_MAX_ATTEMPTS_def)
  also have "\<dots> = (Some (ctxErr ((failedDial ?s ^^ 4) ?w)), exIdle,
                    failedDial ?s ((failedDial ?s ^^ 4) ?w))"
    by (rule connectLoop_cancelled[where e = "OtherError 4"])
       (simp_all add: GRPC_CONNECT_MAX_ATTEMPTS_def exWorld_def allFail_def atFifth_def)
  finally show ?thesis
    by (simp add: exWorld_def allFail_def)
qed

section \<open>Control surface: monitor selection, configuration and capturer instances\<close>

lemma SelectSingleMonitor_invalid:
  "index < 0 \<or> index \<ge> NumActiveDisplays scr \<Longrightarrow> SelectSingleMonitor scr index a h = (False, a, h)"
  by (simp add: SelectSingleMonitor_def)

lemma SelectSingleMonitor_valid:
  "0 \<le> index \<Longrightarrow> index < NumActiveDisplays scr \<Longrightarrow>
   SelectSingleMonitor scr index a h =
     (True, a\<lparr>capturer := ScreenshotPtr (nShots h)\<rparr>,
      h\<lparr>configs := (configs h)(cfg a := (configs h (cfg a))\<lparr>MonitorMode := ''single'', MonitorIndex := index\<rparr>),
        shots := (shots h)(nShots h :=
           \<lparr>mode = ''single'', monitorIndex = index,
            encoding = CaptureEncoding (configs h (cfg a)),
            jpegQuality = JpegQuality (configs h (cfg a))\<rparr>),
        nShots := Suc (nShots h)\<rparr>)"
  by (simp add: SelectSingleMonitor_def newScreenshotCapturer_def)

lemma SetCombinedMode_eq:
  "SetCombinedMode a h =
     (a\<lparr>capturer := ScreenshotPtr (nShots h)\<rparr>,
      h\<lparr>configs := (configs h)(cfg a := (configs h (cfg a))\<lparr>MonitorMode := ''combined''\<rparr>),
        shots := (shots h)(nShots h :=
           \<lparr>mode = ''combined'', monitorIndex = 0,
            encoding = CaptureEncoding (configs h (cfg a)),
            jpegQuality = JpegQuality (configs h (cfg a))\<rparr>),
        nShots := Suc (nShots h)\<rparr>)"
  by (simp add: SetCombinedMode_def newScreenshotCapturer_def)

lemma sameButMonitor_refl [simp]: "sameButMonitor c c"
  by (simp add: sameButMonitor_def)

lemma sameButMonitor_trans: "sameButMonitor c c' \<Longrightarrow> sameButMonitor c' c'' \<Longrightarrow> sameButMonitor c c''"
  by (simp add: sameButMonitor_def)

lemma SelectSingleMonitor_config:
  assumes "SelectSingleMonitor scr index a h = (ok, a', h')"
  shows "cfg a' = cfg a \<and> sameButMonitor (configs h (cfg a)) (configs h' (cfg a)) \<and>
         (\<forall>r. r \<noteq> cfg a \<longrightarrow> configs h' r = configs h r)"
proof (cases "index < 0 \<or> index \<ge> NumActiveDisplays scr")
  case True
  with assms show ?thesis by (simp add: SelectSingleMonitor_invalid)
next
  case False
  then have "0 \<le> index" "index < NumActiveDisplays scr" by simp_all
  from SelectSingleMonitor_valid[OF this, of a h] assms show ?thesis
    by (auto simp add: sameButMonitor_def)
qed

lemma SetCombinedMode_config:
  assumes "SetCombinedMode a h = (a', h')"
  shows "cfg a' = cfg a \<and> sameButMonitor (configs h (cfg a)) (configs h' (cfg a)) \<and>
         (\<forall>r. r \<noteq> cfg a \<longrightarrow> configs h' r = configs h r)"
  using assms by (auto simp add: SetCombinedMode_eq sameButMonitor_def)

lemma applyControls_config:
  "applyControls cs a h = (a', h') \<Longrightarrow>
     cfg a' = cfg a \<and> sameButMonitor (configs h (cfg a)) (configs h' (cfg a)) \<and>
     (\<forall>r. r \<noteq> cfg a \<longrightarrow> configs h' r = configs h r)"
proof (induction cs a h rule: applyControls.induct)
  case (1 a h)
  then show ?case by simp
next
  case (2 scr index cs a h)
  obtain ok a1 h1 where s: "SelectSingleMonitor scr index a h = (ok, a1, h1)"
    by (cases "SelectSingleMonitor scr index a h") auto
  with "2.prems" have r: "applyControls cs a1 h1 = (a', h')" by simp
  from "2.IH"[OF s[symmetric] refl r] SelectSingleMonitor_config[OF s]
  show ?case by (auto intro: sameButMonitor_trans)
next
  case (3 cs a h)
  obtain a1 h1 where s: "SetCombinedMode a h = (a1, h1)"
    by (cases "SetCombinedMode a h") auto
  with "3.prems" have r: "applyControls cs a1 h1 = (a', h')" by simp
  from "3.IH"[OF s[symmetric] r] SetCombinedMode_config[OF s]
  show ?case by (auto intro: sameButMonitor_trans)
qed

lemma applyControls_shots:
  "applyControls cs a h = (a', h') \<Longrightarrow>
     nShots h \<le> nShots h' \<and> (\<forall>r<nShots h. shots h' r = shots h r)"
proof (induction cs a h rule: applyControls.induct)
  case (1 a h)
  then show ?case by simp
next
  case (2 scr index cs a h)
  obtain ok a1 h1 where s: "SelectSingleMonitor scr index a h = (ok, a1, h1)"
    by (cases "SelectSingleMonitor scr index a h") auto
  with "2.prems" have r: "applyControls cs a1 h1 = (a', h')" by simp
  have "nShots h \<le> nShots h1 \<and> (\<forall>r<nShots h. shots h1 r = shots h r)"
  proof (cases "index < 0 \<or> index \<ge> NumActiveDisplays scr")
    case True
    with s show ?thesis by (simp add: SelectSingleMonitor_invalid)
  next
    case False
    then have "0 \<le> index" "index < NumActiveDisplays scr" by simp_all
    from SelectSingleMonitor_valid[OF this, of a h] s show ?thesis by auto
  qed
  with "2.IH"[OF s[symmetric] refl r] show ?case by auto
next
  case (3 cs a h)
  obtain a1 h1 where s: "SetCombinedMode a h = (a1, h1)"
    by (cases "SetCombinedMode a h") auto
  with "3.prems" have r: "applyControls cs a1 h1 = (a', h')" by simp
  from s have "nShots h \<le> nShots h1 \<and> (\<forall>r<nShots h. shots h1 r = shots h r)"
    by (auto simp add: SetCombinedMode_eq)
  with "3.IH"[OF s[symmetric] r] show ?case by auto
qed

lemma New_eq:
  "New goos host envId uuid ctxp cfgp h = (a, h') \<Longrightarrow>
     cfg a = cfgp \<and> configs h' = configs h \<and> captureStopCh a = None \<and> ctx a = ctxp \<and>
     loops h' = loops h \<and> closed h' = closed h \<and> nChans h' = nChans h"
  by (auto simp add: New_def newScreenshotCapturer_def newDummyCapturer_def Let_def
        split: if_splits)

lemma Capture_shots:
  "shots (snd (Capture scr p h)) =
     (if NumActiveDisplays scr \<noteq> 0 \<and> mode (shots h p) = ''single'' \<and>
         monitorIndex (shots h p) \<ge> NumActiveDisplays scr
      then (shots h)(p := (shots h p)\<lparr>monitorIndex := 0\<rparr>) else shots h)"
  by (simp add: Capture_def Let_def split: option.splits sum.splits prod.splits)

text \<open>
  Claim C4. \<open>SelectSingleMonitor(index)\<close> returns true exactly when
  \<open>0 \<le> index < count\<close> for the display count at the time of the call. When it
  returns true, the agent's capturer is a newly allocated single-mode capturer bound to
  \<open>index\<close> (every capturer allocated before is as it was) and the configuration
  records the mode \<open>single\<close> and the index. When it returns false, the agent and
  the store are unchanged.
\<close>

theorem SelectSingleMonitor_iff_valid_index:
  "(fst (SelectSingleMonitor scr index a h) \<longleftrightarrow> 0 \<le> index \<and> index < NumActiveDisplays scr) \<and>
   (fst (SelectSingleMonitor scr index a h) \<longrightarrow>
      (\<exists>a' h'. SelectSingleMonitor scr index a h = (True, a', h') \<and>
         capturer a' = ScreenshotPtr (nShots h) \<and> nShots h' = Suc (nShots h) \<and>
         shots h' (nShots h) =
           \<lparr>mode = ''single'', monitorIndex = index,
            encoding = CaptureEncoding (configs h (cfg a)),
            jpegQuality = JpegQuality (configs h (cfg a))\<rparr> \<and>
         (\<forall>r<nShots h. shots h' r = shots h r) \<and>
         MonitorMode (configs h' (cfg a')) = ''single'' \<and>
         MonitorIndex (configs h' (cfg a')) = index)) \<and>
   (\<not> fst (SelectSingleMonitor scr index a h) \<longrightarrow>
      SelectSingleMonitor scr index a h = (False, a, h))"
proof (cases "index < 0 \<or> index \<ge> NumActiveDisplays scr")
  case True
  then show ?thesis by (auto simp add: SelectSingleMonitor_invalid)
next
  case False
  then have "0 \<le> index" "index < NumActiveDisplays scr" by simp_all
  from SelectSingleMonitor_valid[OF this, of a h] this show ?thesis by simp
qed

theorem SelectSingleMonitor_iff_valid_index_witness:
  "fst (SelectSingleMonitor (exScreen 2) 1 (fst exNew) (snd exNew)) \<and>
   capturer (fst (snd (SelectSingleMonitor (exScreen 2) 1 (fst exNew) (snd exNew)))) = ScreenshotPtr 1 \<and>
   monitorIndex (shots (snd (snd (SelectSingleMonitor (exScreen 2) 1 (fst exNew) (snd exNew)))) 1) = 1 \<and>
   \<not> fst (SelectSingleMonitor (exScreen 2) 2 (fst exNew) (snd exNew)) \<and>
   SelectSingleMonitor (exScreen 2) 2 (fst exNew) (snd exNew) = (False, fst exNew, snd exNew) \<and>
   \<not> fst (SelectSingleMonitor (exScreen 2) (- 1) (fst exNew) (snd exNew))"
proof -
  have n: "nShots (snd exNew) = 1" "NumActiveDisplays (exScreen 2) = 2"
    by (simp_all add: exNew_def New_def newScreenshotCapturer_def exHeap_def exScreen_def)
  have one: "fst (SelectSingleMonitor (exScreen 2) 1 (fst exNew) (snd exNew))"
    using SelectSingleMonitor_iff_valid_index[of "exScreen 2" 1 "fst exNew" "snd exNew"]
    by (simp add: n)
  then obtain a' h' where
    r: "SelectSingleMonitor (exScreen 2) 1 (fst exNew) (snd exNew) = (True, a', h')"
    and f: "capturer a' = ScreenshotPtr (nShots (snd exNew))"
      "monitorIndex (shots h' (nShots (snd exNew))) = 1"
    using SelectSingleMonitor_iff_valid_index[of "exScreen 2" 1 "fst exNew" "snd exNew"]
    by auto
  have two: "\<not> fst (SelectSingleMonitor (exScreen 2) 2 (fst exNew) (snd exNew))"
    using SelectSingleMonitor_iff_valid_index[of "exScreen 2" 2 "fst exNew" "snd exNew"]
    by (simp add: n)
  then have two': "SelectSingleMonitor (exScreen 2) 2 (fst exNew) (snd exNew) = (False, fst exNew, snd exNew)"
    using SelectSingleMonitor_iff_valid_index[of "exScreen 2" 2 "fst exNew" "snd exNew"]
    by blast
  have neg: "\<not> fst (SelectSingleMonitor (exScreen 2) (- 1) (fst exNew) (snd exNew))"
    using SelectSingleMonitor_iff_valid_index[of "exScreen 2" "- 1" "fst exNew" "snd exNew"]
    by (simp add: n)
  from one r f two two' neg show ?thesis by (simp add: n)
qed

text \<open>
  Claim C6, as amended. \<open>New\<close> keeps the pointer to the configuration it is given
  and makes no copy. After any sequence of \<open>SelectSingleMonitor\<close> and
  \<open>SetCombinedMode\<close> calls the agent still points to that object, whose fields other
  than \<open>MonitorMode\<close> and \<open>MonitorIndex\<close> are as they were; a successful
  \<open>SelectSingleMonitor\<close> writes the mode \<open>single\<close> and the index into it,
  \<open>SetCombinedMode\<close> writes the mode \<open>combined\<close>. No other configuration object
  is written.
\<close>

theorem controls_write_configuration_in_place:
  "(New goos host envId uuid ctxp cfgp h0 = (a, h) \<longrightarrow> cfg a = cfgp \<and> configs h = configs h0) \<and>
   (applyControls cs a h = (a', h') \<longrightarrow>
      cfg a' = cfg a \<and> sameButMonitor (configs h (cfg a)) (configs h' (cfg a)) \<and>
      (\<forall>r. r \<noteq> cfg a \<longrightarrow> configs h' r = configs h r)) \<and>
   (0 \<le> index \<and> index < NumActiveDisplays scr \<longrightarrow>
      configs (snd (snd (SelectSingleMonitor scr index a h))) (cfg a)
        = (configs h (cfg a))\<lparr>MonitorMode := ''single'', MonitorIndex := index\<rparr>) \<and>
   configs (snd (SetCombinedMode a h)) (cfg a) = (configs h (cfg a))\<lparr>MonitorMode := ''combined''\<rparr>"
proof -
  have A: "cfg a = cfgp \<and> configs h = configs h0"
    if "New goos host envId uuid ctxp cfgp h0 = (a, h)"
    using New_eq[OF that] by simp
  have B: "cfg a' = cfg a \<and> sameButMonitor (configs h (cfg a)) (configs h' (cfg a)) \<and>
      (\<forall>r. r \<noteq> cfg a \<longrightarrow> configs h' r = configs h r)"
    if "applyControls cs a h = (a', h')"
    using applyControls_config[OF that] .
  have C: "configs (snd (snd (SelectSingleMonitor scr index a h))) (cfg a)
        = (configs h (cfg a))\<lparr>MonitorMode := ''single'', MonitorIndex := index\<rparr>"
    if "0 \<le> index \<and> index < NumActiveDisplays scr"
    using that by (simp add: SelectSingleMonitor_valid)
  have D: "configs (snd (SetCombinedMode a h)) (cfg a) = (configs h (cfg a))\<lparr>MonitorMode := ''combined''\<rparr>"
    by (simp add: SetCombinedMode_eq)
  from A B C D show ?thesis by blast
qed

theorem controls_write_configuration_in_place_witness:
  "cfg (fst exNew) = 0 \<and> configs (snd exNew) = configs exHeap \<and>
   cfg (fst (applyControls [SelectMonitor (exScreen 2) 1, CombinedMode] (fst exNew) (snd exNew))) = 0 \<and>
   sameButMonitor (configs (snd exNew) 0)
     (configs (snd (applyControls [SelectMonitor (exScreen 2) 1, CombinedMode] (fst exNew) (snd exNew))) 0) \<and>
   configs (snd (snd (SelectSingleMonitor (exScreen 2) 1 (fst exNew) (snd exNew)))) 0
     = exConfig\<lparr>MonitorMode := ''single'', MonitorIndex := 1\<rparr>"
proof -
  have n: "New ''linux'' ''host'' [] ''uuid-1'' (Some 0) 0 exHeap = (fst exNew, snd exNew)"
    by (simp add: exNew_def)
  have c: "cfg (fst exNew) = 0" "configs (snd exNew) = configs exHeap"
    using New_eq[OF n] by simp_all
  obtain a' h' where r: "applyControls [SelectMonitor (exScreen 2) 1, CombinedMode] (fst exNew) (snd exNew) = (a', h')"
    by (cases "applyControls [SelectMonitor (exScreen 2) 1, CombinedMode] (fst exNew) (snd exNew)") auto
  have k: "NumActiveDisplays (exScreen 2) = 2" "configs exHeap 0 = exConfig"
    by (simp_all add: exScreen_def exHeap_def)
  from controls_write_configuration_in_place
         [of "''linux''" "''host''" "[]" "''uuid-1''" "Some 0" 0 exHeap "fst exNew" "snd exNew"
             "[SelectMonitor (exScreen 2) 1, CombinedMode]" a' h' 1 "exScreen 2"]
       n r c k
  show ?thesis by simp
qed

text \<open>
  Claim C6 as stated fails: the configuration object that \<open>New\<close> was given says
  \<open>single\<close> before and \<open>combined\<close> after one \<open>SetCombinedMode\<close>.
\<close>

theorem original_config_mutated_counterexample:
  "cfg (fst exNew) = 0 \<and>
   MonitorMode (configs exHeap 0) = ''single'' \<and>
   MonitorMode (configs (snd (SetCombinedMode (fst exNew) (snd exNew))) 0) = ''combined'' \<and>
   configs (snd (SetCombinedMode (fst exNew) (snd exNew))) 0 \<noteq> configs exHeap 0"
proof -
  have n: "New ''linux'' ''host'' [] ''uuid-1'' (Some 0) 0 exHeap = (fst exNew, snd exNew)"
    by (simp add: exNew_def)
  have c: "cfg (fst exNew) = 0" "configs (snd exNew) = configs exHeap"
    using New_eq[OF n] by simp_all
  have m: "MonitorMode (configs exHeap 0) = ''single''"
    by (simp add: exHeap_def exConfig_def)
  have s: "configs (snd (SetCombinedMode (fst exNew) (snd exNew))) 0
      = (configs exHeap 0)\<lparr>MonitorMode := ''combined''\<rparr>"
    by (simp add: SetCombinedMode_eq c)
  have "MonitorMode (configs (snd (SetCombinedMode (fst exNew) (snd exNew))) 0) = ''combined''"
    by (simp add: s)
  moreover from this m
  have "configs (snd (SetCombinedMode (fst exNew) (snd exNew))) 0 \<noteq> configs exHeap 0"
    by auto
  ultimately show ?thesis using c m by simp
qed

text \<open>
  Claim C7, as amended. Switching mode or monitor installs a newly allocated capturer
  and leaves every capturer allocated before as it was. \<open>Capture\<close> changes no
  capturer other than its receiver and never the receiver's mode, encoding or JPEG
  quality; it does write the receiver's \<open>monitorIndex\<close>, setting it to 0, when there
  is at least one display, the mode is \<open>single\<close> and the index is not below the
  display count.
\<close>

theorem capturer_instances_after_operations:
  "(applyControls cs a h = (a', h') \<longrightarrow>
      nShots h \<le> nShots h' \<and> (\<forall>r<nShots h. shots h' r = shots h r)) \<and>
   capturer (fst (SetCombinedMode a h)) = ScreenshotPtr (nShots h) \<and>
   (0 \<le> index \<and> index < NumActiveDisplays scr \<longrightarrow>
      capturer (fst (snd (SelectSingleMonitor scr index a h))) = ScreenshotPtr (nShots h)) \<and>
   (\<forall>q. q \<noteq> p \<longrightarrow> shots (snd (Capture scr p h)) q = shots h q) \<and>
   mode (shots (snd (Capture scr p h)) p) = mode (shots h p) \<and>
   encoding (shots (snd (Capture scr p h)) p) = encoding (shots h p) \<and>
   jpegQuality (shots (snd (Capture scr p h)) p) = jpegQuality (shots h p) \<and>
   monitorIndex (shots (snd (Capture scr p h)) p) =
     (if NumActiveDisplays scr \<noteq> 0 \<and> mode (shots h p) = ''single'' \<and>
         monitorIndex (shots h p) \<ge> NumActiveDisplays scr
      then 0 else monitorIndex (shots h p))"
proof -
  have A: "nShots h \<le> nShots h' \<and> (\<forall>r<nShots h. shots h' r = shots h r)"
    if "applyControls cs a h = (a', h')"
    using applyControls_shots[OF that] .
  have B: "capturer (fst (SetCombinedMode a h)) = ScreenshotPtr (nShots h)"
    by (simp add: SetCombinedMode_eq)
  have C: "capturer (fst (snd (SelectSingleMonitor scr index a h))) = ScreenshotPtr (nShots h)"
    if "0 \<le> index \<and> index < NumActiveDisplays scr"
    using that by (simp add: SelectSingleMonitor_valid)
  have D: "\<forall>q. q \<noteq> p \<longrightarrow> shots (snd (Capture scr p h)) q = shots h q"
    "mode (shots (snd (Capture scr p h)) p) = mode (shots h p)"
    "encoding (shots (snd (Capture scr p h)) p) = encoding (shots h p)"
    "jpegQuality (shots (snd (Capture scr p h)) p) = jpegQuality (shots h p)"
    "monitorIndex (shots (snd (Capture scr p h)) p) =
     (if NumActiveDisplays scr \<noteq> 0 \<and> mode (shots h p) = ''single'' \<and>
         monitorIndex (shots h p) \<ge> NumActiveDisplays scr
      then 0 else monitorIndex (shots h p))"
    by (simp_all add: Capture_shots)
  from A B C D show ?thesis by blast
qed

theorem capturer_instances_after_operations_witness:
  "shots (snd (applyControls [SelectMonitor (exScreen 2) 1, CombinedMode] (fst exNew) (snd exNew))) 0
     = shots (snd exNew) 0 \<and>
   capturer (fst (snd (SelectSingleMonitor (exScreen 2) 1 (fst exNew) (snd exNew)))) = ScreenshotPtr 1 \<and>
   shots (snd (Capture (exScreen 2) 0 (exHeapWith (exShot ''single'' 1)))) 1
     = shots (exHeapWith (exShot ''single'' 1)) 1 \<and>
   monitorIndex (shots (snd (Capture (exScreen 2) 0 (exHeapWith (exShot ''single'' 1)))) 0) = 1"
proof -
  have n: "nShots (snd exNew) = 1" "NumActiveDisplays (exScreen 2) = 2"
    by (simp_all add: exNew_def New_def newScreenshotCapturer_def exHeap_def exScreen_def)
  obtain a' h' where r: "applyControls [SelectMonitor (exScreen 2) 1, CombinedMode] (fst exNew) (snd exNew) = (a', h')"
    by (cases "applyControls [SelectMonitor (exScreen 2) 1, CombinedMode] (fst exNew) (snd exNew)") auto
  have s: "mode (shots (exHeapWith (exShot ''single'' 1)) 0) = ''single''"
    "monitorIndex (shots (exHeapWith (exShot ''single'' 1)) 0) = 1"
    by (simp_all add: exHeapWith_def exShot_def)
  have zero: "(0::nat) < nShots (snd exNew)" "(1::nat) \<noteq> 0" using n by simp_all
  from capturer_instances_after_operations
         [where cs = "[SelectMonitor (exScreen 2) 1, CombinedMode]" and a = "fst exNew"
            and h = "snd exNew" and a' = a' and h' = h' and index = 1 and scr = "exScreen 2"]
       r n zero
  have first: "shots h' 0 = shots (snd exNew) 0"
    "capturer (fst (snd (SelectSingleMonitor (exScreen 2) 1 (fst exNew) (snd exNew)))) = ScreenshotPtr 1"
    by simp_all
  from capturer_instances_after_operations
         [where h = "exHeapWith (exShot ''single'' 1)" and scr = "exScreen 2" and p = 0] s n
  have second: "shots (snd (Capture (exScreen 2) 0 (exHeapWith (exShot ''single'' 1)))) 1
      = shots (exHeapWith (exShot ''single'' 1)) 1"
    "monitorIndex (shots (snd (Capture (exScreen 2) 0 (exHeapWith (exShot ''single'' 1)))) 0) = 1"
    by simp_all
  from first second r show ?thesis by simp
qed

text \<open>
  Claim C7 as stated fails: a single-mode capturer bound to monitor 3, asked to capture
  with two displays, has \<open>monitorIndex\<close> 0 afterwards.
\<close>

theorem Capture_mutates_monitorIndex_counterexample:
  "monitorIndex (shots (exHeapWith (exShot ''single'' 3)) 0) = 3 \<and>
   monitorIndex (shots (snd (Capture (exScreen 2) 0 (exHeapWith (exShot ''single'' 3)))) 0) = 0"
  by (simp add: Capture_shots exHeapWith_def exShot_def exScreen_def)

section \<open>Capture scheduler: start and stop\<close>

lemma running_after_start:
  assumes "\<forall>c \<in> set (loops h). c < nChans h"
  shows "running (h\<lparr>closed := (closed h)(nChans h := False), nChans := Suc (nChans h),
                    loops := loops h @ [nChans h]\<rparr>) = running h @ [nChans h]"
proof -
  have "filter (\<lambda>ch. \<not> ((closed h)(nChans h := False)) ch) (loops h)
      = filter (\<lambda>ch. \<not> closed h ch) (loops h)"
    using assms by (intro filter_cong) auto
  then show ?thesis by (simp add: running_def)
qed

lemma running_after_stop:
  assumes "running h = [ch]"
  shows "running (h\<lparr>closed := (closed h)(ch := True)\<rparr>) = []"
proof -
  have "filter (\<lambda>c. \<not> ((closed h)(ch := True)) c) (loops h)
      = filter (\<lambda>c. c \<noteq> ch) (filter (\<lambda>c. \<not> closed h c) (loops h))"
    unfolding filter_filter by (intro filter_cong) auto
  also have "\<dots> = []" using assms by (simp add: running_def)
  finally show ?thesis by (simp add: running_def)
qed

lemma running_open:
  assumes "running h = [ch]"
  shows "\<not> closed h ch"
proof -
  have "ch \<in> set (running h)" using assms by simp
  then show ?thesis by (simp add: running_def)
qed

lemma StartCapture_stopped:
  assumes "captureStopCh a = None" "ctx a \<noteq> None"
  shows "StartCapture (Some a) h =
     (None, Some (a\<lparr>captureStopCh := Some (nChans h)\<rparr>),
      h\<lparr>closed := (closed h)(nChans h := False), nChans := Suc (nChans h),
        loops := loops h @ [nChans h]\<rparr>)"
  using assms by (auto simp add: StartCapture_def Let_def)

lemma StartCapture_running:
  assumes "captureStopCh a \<noteq> None"
  shows "StartCapture (Some a) h = (None, Some a, h)"
  using assms by (auto simp add: StartCapture_def)

lemma StartCapture_never_errors: "fst (StartCapture ao h) = None"
  by (simp add: StartCapture_def Let_def split: option.splits)

text \<open>
  Claim C9. For an agent with a context, in a scheduler state as described by
  \<open>schedulerOk\<close>: \<open>StartCapture\<close> in the stopped state allocates a fresh channel,
  launches one loop bound to it, and that loop is then the only one running; a second
  \<open>StartCapture\<close> returns nil and changes nothing, as does any \<open>StartCapture\<close> in
  the running state. \<open>StopCapture\<close> in the running state closes the channel and
  clears the handle, after which no loop is running; in the stopped state it changes
  nothing. \<open>StartCapture\<close> returns nil in every case.
\<close>

theorem StartCapture_StopCapture_idempotent:
  assumes "schedulerOk a h"
  shows "(captureStopCh a = None \<and> ctx a \<noteq> None \<longrightarrow>
            (\<exists>a' h'. StartCapture (Some a) h = (None, Some a', h') \<and>
               captureStopCh a' = Some (nChans h) \<and> nChans h \<notin> set (loops h) \<and>
               \<not> closed h' (nChans h) \<and> loops h' = loops h @ [nChans h] \<and>
               running h' = [nChans h] \<and> schedulerOk a' h' \<and>
               StartCapture (Some a') h' = (None, Some a', h'))) \<and>
         (captureStopCh a \<noteq> None \<longrightarrow> StartCapture (Some a) h = (None, Some a, h)) \<and>
         (\<forall>ch. captureStopCh a = Some ch \<longrightarrow>
            (\<exists>h'. StopCapture a h = Some (a\<lparr>captureStopCh := None\<rparr>, h') \<and>
               closed h' ch \<and> running h' = [] \<and> schedulerOk (a\<lparr>captureStopCh := None\<rparr>) h' \<and>
               StopCapture (a\<lparr>captureStopCh := None\<rparr>) h' = Some (a\<lparr>captureStopCh := None\<rparr>, h'))) \<and>
         (captureStopCh a = None \<longrightarrow> StopCapture a h = Some (a, h)) \<and>
         fst (StartCapture ao h) = None"
proof -
  from assms have alloc: "\<forall>c \<in> set (loops h). c < nChans h"
    by (simp add: schedulerOk_def)
  have A: "\<exists>a' h'. StartCapture (Some a) h = (None, Some a', h') \<and>
               captureStopCh a' = Some (nChans h) \<and> nChans h \<notin> set (loops h) \<and>
               \<not> closed h' (nChans h) \<and> loops h' = loops h @ [nChans h] \<and>
               running h' = [nChans h] \<and> schedulerOk a' h' \<and>
               StartCapture (Some a') h' = (None, Some a', h')"
    if st: "captureStopCh a = None \<and> ctx a \<noteq> None"
  proof -
    let ?a = "a\<lparr>captureStopCh := Some (nChans h)\<rparr>"
    let ?h = "h\<lparr>closed := (closed h)(nChans h := False), nChans := Suc (nChans h),
                loops := loops h @ [nChans h]\<rparr>"
    from assms st have "running h = []" by (simp add: schedulerOk_def)
    then have r: "running ?h = [nChans h]" using running_after_start[OF alloc] by simp
    have fresh: "nChans h \<notin> set (loops h)" using alloc by auto
    have ok: "schedulerOk ?a ?h" using r alloc by (auto simp add: schedulerOk_def)
    have s1: "StartCapture (Some a) h = (None, Some ?a, ?h)"
      using st by (simp add: StartCapture_stopped)
    have s2: "StartCapture (Some ?a) ?h = (None, Some ?a, ?h)"
      by (rule StartCapture_running) simp
    from s1 s2 r fresh ok show ?thesis by simp
  qed
  have B: "StartCapture (Some a) h = (None, Some a, h)" if "captureStopCh a \<noteq> None"
    using that by (rule StartCapture_running)
  have C: "\<exists>h'. StopCapture a h = Some (a\<lparr>captureStopCh := None\<rparr>, h') \<and>
               closed h' ch \<and> running h' = [] \<and> schedulerOk (a\<lparr>captureStopCh := None\<rparr>) h' \<and>
               StopCapture (a\<lparr>captureStopCh := None\<rparr>) h' = Some (a\<lparr>captureStopCh := None\<rparr>, h')"
    if st: "captureStopCh a = Some ch" for ch
  proof -
    let ?h = "h\<lparr>closed := (closed h)(ch := True)\<rparr>"
    from assms st have run: "running h = [ch]" by (simp add: schedulerOk_def)
    have op: "\<not> closed h ch" using running_open[OF run] .
    have r: "running ?h = []" using running_after_stop[OF run] .
    have ok: "schedulerOk (a\<lparr>captureStopCh := None\<rparr>) ?h"
      using r alloc by (simp add: schedulerOk_def)
    have s1: "StopCapture a h = Some (a\<lparr>captureStopCh := None\<rparr>, ?h)"
      using st op by (simp add: StopCapture_def)
    have s2: "StopCapture (a\<lparr>captureStopCh := None\<rparr>) ?h = Some (a\<lparr>captureStopCh := None\<rparr>, ?h)"
      by (simp add: StopCapture_def)
    from s1 s2 r ok show ?thesis by simp
  qed
  have D: "StopCapture a h = Some (a, h)" if "captureStopCh a = None"
    using that by (simp add: StopCapture_def)
  have E: "fst (StartCapture ao h) = None" by (rule StartCapture_never_errors)
  from A B C D E show ?thesis by blast
qed

text \<open>
  The witness: the agent that \<open>New\<close> builds is stopped, and stopping it changes
  nothing. Started, it has one running loop, bound to channel 0; started again, nothing
  changes; stopped, no loop is running.
\<close>

theorem StartCapture_StopCapture_idempotent_witness:
  "schedulerOk (fst exNew) (snd exNew) \<and> captureStopCh (fst exNew) = None \<and>
   ctx (fst exNew) \<noteq> None \<and>
   StopCapture (fst exNew) (snd exNew) = Some exNew \<and>
   StartCapture (Some (fst exNew)) (snd exNew) = (None, Some (fst exStarted), snd exStarted) \<and>
   schedulerOk (fst exStarted) (snd exStarted) \<and>
   captureStopCh (fst exStarted) = Some 0 \<and>
   running (snd exStarted) = [0] \<and>
   StartCapture (Some (fst exStarted)) (snd exStarted) = (None, Some (fst exStarted), snd exStarted) \<and>
   map_option (captureStopCh \<circ> fst) (StopCapture (fst exStarted) (snd exStarted)) = Some None \<and>
   map_option (running \<circ> snd) (StopCapture (fst exStarted) (snd exStarted)) = Some []"
proof -
  have n: "New ''linux'' ''host'' [] ''uuid-1'' (Some 0) 0 exHeap = (fst exNew, snd exNew)"
    by (simp add: exNew_def)
  from New_eq[OF n] have f: "captureStopCh (fst exNew) = None" "ctx (fst exNew) = Some 0"
    "loops (snd exNew) = []" "nChans (snd exNew) = 0"
    by (simp_all add: exHeap_def)
  then have ok: "schedulerOk (fst exNew) (snd exNew)"
    by (simp add: schedulerOk_def running_def)
  from StartCapture_StopCapture_idempotent[OF ok, of None] f
  obtain a' h' where s: "StartCapture (Some (fst exNew)) (snd exNew) = (None, Some a', h')"
    "captureStopCh a' = Some 0" "running h' = [0]" "schedulerOk a' h'"
    "StopCapture (fst exNew) (snd exNew) = Some (fst exNew, snd exNew)"
    by auto
  then have e: "exStarted = (a', h')" by (simp add: exStarted_def)
  from StartCapture_StopCapture_idempotent[OF s(4), of None] s(2)
  obtain h'' where t: "StartCapture (Some a') h' = (None, Some a', h')"
    "StopCapture a' h' = Some (a'\<lparr>captureStopCh := None\<rparr>, h'')" "running h'' = []"
    by auto
  from ok f s t show ?thesis by (simp add: e)
qed

section \<open>Combined mode: the geometry of the composite\<close>

lemma Rect_canonical:
  "x0 \<le> x1 \<Longrightarrow> y0 \<le> y1 \<Longrightarrow> Rect x0 y0 x1 y1 = \<lparr>minX = x0, minY = y0, maxX = x1, maxY = y1\<rparr>"
  by (simp add: Rect_def)

lemma maxHeight_fold:
  "foldl (\<lambda>m d. if d > m then d else m) (m0::int) ds = Max (set (m0 # ds))"
proof -
  have "foldl (\<lambda>m d. if d > m then d else m) m0 ds = fold max ds m0"
    by (induction ds arbitrary: m0) (simp_all add: max_def)
  then show ?thesis by (simp only: Max.set_eq_fold)
qed

text \<open>The first loop after \<open>n\<close> rounds, on displays whose bounds are the list \<open>bs\<close>.\<close>

lemma measure_prefix:
  assumes "\<forall>i<length bs. GetDisplayBounds scr (int i) = bs ! i" "n \<le> length bs"
  shows "foldl (\<lambda>(bounds, totalWidth, maxHeight) i.
              (let b = GetDisplayBounds scr i
               in (bounds @ [b], totalWidth + Dx b,
                   if Dy b > maxHeight then Dy b else maxHeight)))
       ([], 0, 0) (map int [0..<n])
     = (take n bs, sum_list (map Dx (take n bs)),
        foldl (\<lambda>m d. if d > m then d else m) 0 (map Dy (take n bs)))"
  using assms(2)
proof (induction n)
  case 0
  show ?case by simp
next
  case (Suc n)
  then have n: "n < length bs" by simp
  with assms(1) have b: "GetDisplayBounds scr (int n) = bs ! n" by simp
  from Suc n show ?case
    by (simp add: take_Suc_conv_app_nth b Let_def)
qed

lemma measureDisplays_eq:
  assumes "NumActiveDisplays scr = int (length bs)"
    "\<forall>i<length bs. GetDisplayBounds scr (int i) = bs ! i"
  shows "measureDisplays scr (NumActiveDisplays scr)
     = (bs, sum_list (map Dx bs), Max (set (0 # map Dy bs)))"
  using measure_prefix[OF assms(2), of "length bs"] assms(1)
  by (simp add: measureDisplays_def maxHeight_fold)

text \<open>The second loop from display \<open>length pre\<close> on, when every grab succeeds.\<close>

lemma drawDisplays_eq:
  assumes "bs = pre @ rest"
    "\<forall>i<length bs. CaptureRect scr i (bs ! i) = None"
    "\<forall>b \<in> set bs. 0 \<le> Dx b \<and> 0 \<le> Dy b"
  shows "drawDisplays scr rest (length pre) (sum_list (map Dx pre)) canvas
     = Inr (foldl (\<lambda>canvas i. Drawn canvas (specTarget bs i) (Grabbed (bs ! i)))
              canvas [length pre..<length bs])"
  using assms(1)
proof (induction rest arbitrary: pre canvas)
  case Nil
  then show ?case by simp
next
  case (Cons b rest)
  have i: "length pre < length bs" "bs ! length pre = b" "take (length pre) bs = pre"
    using Cons.prems by simp_all
  have g: "CaptureRect scr (length pre) b = None" using assms(2) i by auto
  have nn: "0 \<le> Dx b" "0 \<le> Dy b" using assms(3) Cons.prems by simp_all
  have t: "Rect (sum_list (map Dx pre)) 0 (sum_list (map Dx pre) + Dx b) (Dy b)
      = specTarget bs (length pre)"
    using nn i by (simp add: Rect_canonical specTarget_def)
  have next_pre: "bs = (pre @ [b]) @ rest" using Cons.prems by simp
  have "drawDisplays scr (b # rest) (length pre) (sum_list (map Dx pre)) canvas
      = drawDisplays scr rest (length (pre @ [b])) (sum_list (map Dx (pre @ [b])))
          (Drawn canvas (specTarget bs (length pre)) (Grabbed b))"
    using g t by simp
  also have "\<dots> = Inr (foldl (\<lambda>canvas i. Drawn canvas (specTarget bs i) (Grabbed (bs ! i)))
              (Drawn canvas (specTarget bs (length pre)) (Grabbed b))
              [length (pre @ [b])..<length bs])"
    by (rule Cons.IH[OF next_pre])
  also have "\<dots> = Inr (foldl (\<lambda>canvas i. Drawn canvas (specTarget bs i) (Grabbed (bs ! i)))
              canvas [length pre..<length bs])"
    using i by (simp add: upt_conv_Cons)
  finally show ?case .
qed

lemma Max_heights:
  assumes "bs \<noteq> []" "\<forall>b \<in> set bs. 0 \<le> Dy b"
  shows "Max (set (0 # map Dy bs)) = Max (set (map Dy bs)) \<and> 0 \<le> Max (set (map Dy bs))"
proof -
  have ne: "set (map Dy bs) \<noteq> {}" using assms(1) by simp
  obtain b where "b \<in> set bs" using assms(1) by (cases bs) auto
  with assms(2) have "0 \<le> Dy b" "Dy b \<in> set (map Dy bs)" by simp_all
  then have "0 \<le> Max (set (map Dy bs))"
    by (meson List.finite_set Max_ge order_trans)
  with ne show ?thesis by (simp add: max_def)
qed

lemma Capture_combined:
  assumes "bs \<noteq> []" "NumActiveDisplays scr = int (length bs)"
    "\<forall>i<length bs. GetDisplayBounds scr (int i) = bs ! i"
    "\<forall>b \<in> set bs. 0 \<le> Dx b \<and> 0 \<le> Dy b"
    "\<forall>i<length bs. CaptureRect scr i (bs ! i) = None"
    "mode (shots h p) = ''combined''"
  shows "Capture scr p h = (encode scr (shots h p) (specComposite bs), h)"
proof -
  have c: "NumActiveDisplays scr \<noteq> 0" using assms(1,2) by simp
  have w: "0 \<le> sum_list (map Dx bs)" using assms(4) by (intro sum_list_nonneg) auto
  have "Max (set (0 # map Dy bs)) = Max (set (map Dy bs)) \<and> 0 \<le> Max (set (map Dy bs))"
    using assms(1,4) by (intro Max_heights) auto
  then have mh: "Max (set (0 # map Dy bs)) = Max (set (map Dy bs))"
    and hh: "0 \<le> Max (set (map Dy bs))" by simp_all
  have m: "measureDisplays scr (NumActiveDisplays scr)
      = (bs, sum_list (map Dx bs), Max (set (map Dy bs)))"
    using measureDisplays_eq[OF assms(2,3)] mh by simp
  have d: "drawDisplays scr bs 0 0
        (NewRGBA \<lparr>minX = 0, minY = 0, maxX = sum_list (map Dx bs), maxY = Max (set (map Dy bs))\<rparr>)
      = Inr (specComposite bs)"
    using drawDisplays_eq[of bs "[]" bs scr, OF _ assms(5) assms(4)]
    by (simp add: specComposite_def)
  show ?thesis
    using c assms(6) by (simp add: Capture_def m Rect_canonical[OF w hh] d del: set_map)
qed

lemma Capture_no_display:
  "NumActiveDisplays scr = 0 \<Longrightarrow>
   Capture scr p h =
     (encode scr (shots h p) (NewRGBA \<lparr>minX = 0, minY = 0, maxX = 1, maxY = 1\<rparr>), h)"
  by (simp add: Capture_def Rect_def)

text \<open>
  Claim C5. In combined mode, with \<open>n \<ge> 1\<close> displays whose bounds are the list
  \<open>bs\<close> (each with non-negative width and height, as \<open>GetDisplayBounds\<close> reports
  them) and every grab succeeding, \<open>Capture\<close> encodes the composite of the
  specification: a canvas \<open>(sum of widths) \<times> (maximal height)\<close> on which display
  \<open>i\<close> is drawn with its left edge at the sum of the widths of the displays before it
  and its top at 0. With no display it encodes a 1\<times>1 image.
\<close>

theorem Capture_combined_geometry:
  "(bs \<noteq> [] \<and> NumActiveDisplays scr = int (length bs) \<and>
    (\<forall>i<length bs. GetDisplayBounds scr (int i) = bs ! i) \<and>
    (\<forall>b \<in> set bs. 0 \<le> Dx b \<and> 0 \<le> Dy b) \<and>
    (\<forall>i<length bs. CaptureRect scr i (bs ! i) = None) \<and>
    mode (shots h p) = ''combined''
    \<longrightarrow> Capture scr p h = (encode scr (shots h p) (specComposite bs), h)) \<and>
   (NumActiveDisplays scr = 0
    \<longrightarrow> Capture scr p h =
          (encode scr (shots h p) (NewRGBA \<lparr>minX = 0, minY = 0, maxX = 1, maxY = 1\<rparr>), h))"
  using Capture_combined[of bs scr h p] Capture_no_display[of scr p h] by blast

text \<open>
  The witness is the example of the specification: bounds \<open>(0,0,800,600)\<close> and
  \<open>(0,0,1024,768)\<close> give a canvas of 1824\<times>768 with the first display drawn on
  \<open>x \<in> [0, 800)\<close> and the second on \<open>x \<in> [800, 1824)\<close>, both from \<open>y = 0\<close>.
\<close>

theorem Capture_combined_geometry_witness:
  "Capture (exScreen 2) 0 (exHeapWith (exShot ''combined'' 0)) =
     (pngOk
        (Drawn
           (Drawn (NewRGBA \<lparr>minX = 0, minY = 0, maxX = 1824, maxY = 768\<rparr>)
              \<lparr>minX = 0, minY = 0, maxX = 800, maxY = 600\<rparr>
              (Grabbed \<lparr>minX = 0, minY = 0, maxX = 800, maxY = 600\<rparr>))
           \<lparr>minX = 800, minY = 0, maxX = 1824, maxY = 768\<rparr>
           (Grabbed \<lparr>minX = 0, minY = 0, maxX = 1024, maxY = 768\<rparr>)),
      exHeapWith (exShot ''combined'' 0)) \<and>
   Capture (exScreen 0) 0 (exHeapWith (exShot ''combined'' 0)) =
     (pngOk (NewRGBA \<lparr>minX = 0, minY = 0, maxX = 1, maxY = 1\<rparr>),
      exHeapWith (exShot ''combined'' 0))"
proof -
  let ?h = "exHeapWith (exShot ''combined'' 0)"
  have b: "\<forall>i<length exBounds. GetDisplayBounds (exScreen 2) (int i) = exBounds ! i"
    by (simp add: exBounds_def exScreen_def exBoundsAt_def less_Suc_eq numeral_2_eq_2)
  have g: "\<forall>i<length exBounds. CaptureRect (exScreen 2) i (exBounds ! i) = None"
    by (simp add: exScreen_def grabOk_def)
  have nn: "\<forall>b \<in> set exBounds. 0 \<le> Dx b \<and> 0 \<le> Dy b"
    by (simp add: exBounds_def Dx_def Dy_def)
  have o: "exBounds \<noteq> []" "NumActiveDisplays (exScreen 2) = int (length exBounds)"
    "mode (shots ?h 0) = ''combined''" "NumActiveDisplays (exScreen 0) = 0"
    by (simp_all add: exBounds_def exScreen_def exHeapWith_def exShot_def)
  have e: "encode (exScreen 2) (shots ?h 0) = pngOk" "encode (exScreen 0) (shots ?h 0) = pngOk"
    by (auto simp add: encode_def encodePNG_def exScreen_def exHeapWith_def exShot_def)
  have c: "specComposite exBounds =
      Drawn
           (Drawn (NewRGBA \<lparr>minX = 0, minY = 0, maxX = 1824, maxY = 768\<rparr>)
              \<lparr>minX = 0, minY = 0, maxX = 800, maxY = 600\<rparr>
              (Grabbed \<lparr>minX = 0, minY = 0, maxX = 800, maxY = 600\<rparr>))
           \<lparr>minX = 800, minY = 0, maxX = 1824, maxY = 768\<rparr>
           (Grabbed \<lparr>minX = 0, minY = 0, maxX = 1024, maxY = 768\<rparr>)"
    by (simp add: specComposite_def specTarget_def exBounds_def Dx_def Dy_def
          upt_conv_Cons numeral_2_eq_2)
  from Capture_combined_geometry[of exBounds "exScreen 2" ?h 0] b g nn o
  have "Capture (exScreen 2) 0 ?h = (encode (exScreen 2) (shots ?h 0) (specComposite exBounds), ?h)"
    by blast
  moreover from Capture_combined_geometry[of exBounds "exScreen 0" ?h 0] o
  have "Capture (exScreen 0) 0 ?h =
      (encode (exScreen 0) (shots ?h 0) (NewRGBA \<lparr>minX = 0, minY = 0, maxX = 1, maxY = 1\<rparr>), ?h)"
    by blast
  ultimately show ?thesis by (simp add: e c)
qed

section \<open>Capture scheduler: pacing\<close>

lemma captureIteration_sent:
  assumes "\<not> quitAt env (iter s)" "nextFrameTime s \<le> clock s"
    "\<not> captureFails env (length (captureStarts s))"
  shows "captureIteration fi env s =
    s\<lparr>captureStarts := captureStarts s @ [clock s],
      clock := clock s + captureTime env (length (captureStarts s))
                 + sendTime env (length (captureStarts s)),
      iter := Suc (iter s),
      nextFrameTime :=
        (if clock s + captureTime env (length (captureStarts s))
              + sendTime env (length (captureStarts s)) - (nextFrameTime s + fi) > fi
         then clock s + captureTime env (length (captureStarts s))
              + sendTime env (length (captureStarts s)) + fi
         else nextFrameTime s + fi),
      resets :=
        (if clock s + captureTime env (length (captureStarts s))
              + sendTime env (length (captureStarts s)) - (nextFrameTime s + fi) > fi
         then Suc (resets s) else resets s)\<rparr>"
  using assms by (simp add: captureIteration_def Let_def)

lemma captureIteration_failed:
  assumes "\<not> quitAt env (iter s)" "nextFrameTime s \<le> clock s"
    "captureFails env (length (captureStarts s))"
  shows "captureIteration fi env s =
    s\<lparr>captureStarts := captureStarts s @ [clock s],
      clock := clock s + captureTime env (length (captureStarts s)),
      iter := Suc (iter s),
      nextFrameTime := nextFrameTime s + fi\<rparr>"
  using assms by (simp add: captureIteration_def Let_def)

lemma captureIteration_sleep:
  assumes "\<not> quitAt env (iter s)" "clock s < nextFrameTime s"
  shows "captureIteration fi env s = s\<lparr>clock := nextFrameTime s, iter := Suc (iter s)\<rparr>"
  using assms by (simp add: captureIteration_def Let_def)

text \<open>
  Claim C3, as amended. Take an iteration that is due (\<open>nextFrameTime \<le> now\<close>) and
  does not quit, and let \<open>stall\<close> be the time its capture and send take. If the
  capture fails, \<open>nextFrameTime\<close> advances by \<open>frameInterval\<close> and nothing else
  happens to it. If the capture succeeds, \<open>nextFrameTime\<close> advances by
  \<open>frameInterval\<close> and then, if the clock is more than \<open>frameInterval\<close> past the
  advanced value, is reset to the clock plus \<open>frameInterval\<close>, which counts as one
  reset. So the reset happens exactly when lateness plus stall exceed two intervals.
  After a reset, with a positive interval, the next iteration sleeps one full interval
  and captures nothing; with no reset and the advanced time not in the future, the
  next iteration captures at once.
\<close>

theorem captureLoop_catch_up:
  assumes "\<not> quitAt env (iter s)" and "nextFrameTime s \<le> clock s"
    and "k = length (captureStarts s)"
    and "stall = captureTime env k + sendTime env k"
    and "s' = captureIteration fi env s"
  shows "(captureFails env k \<longrightarrow>
            nextFrameTime s' = nextFrameTime s + fi \<and> resets s' = resets s) \<and>
         (\<not> captureFails env k \<longrightarrow>
            clock s' = clock s + stall \<and>
            nextFrameTime s' =
              (if clock s' - (nextFrameTime s + fi) > fi then clock s' + fi
               else nextFrameTime s + fi) \<and>
            resets s' =
              (if clock s' - (nextFrameTime s + fi) > fi then Suc (resets s) else resets s) \<and>
            (resets s' = Suc (resets s) \<longleftrightarrow> (clock s - nextFrameTime s) + stall > 2 * fi)) \<and>
         (\<not> captureFails env k \<and> resets s' = Suc (resets s) \<and> 0 < fi \<and>
          \<not> quitAt env (iter s') \<longrightarrow>
            captureIteration fi env s' = s'\<lparr>clock := clock s' + fi, iter := Suc (iter s')\<rparr>) \<and>
         (\<not> captureFails env k \<and> resets s' = resets s \<and> nextFrameTime s + fi \<le> clock s' \<and>
          \<not> quitAt env (iter s') \<longrightarrow>
            captureStarts (captureIteration fi env s') = captureStarts s @ [clock s, clock s'])"
proof -
  have F: "nextFrameTime s' = nextFrameTime s + fi \<and> resets s' = resets s"
    if "captureFails env k"
    using that assms by (simp add: captureIteration_failed)
  have S: "clock s' = clock s + stall \<and>
            nextFrameTime s' =
              (if clock s' - (nextFrameTime s + fi) > fi then clock s' + fi
               else nextFrameTime s + fi) \<and>
            resets s' =
              (if clock s' - (nextFrameTime s + fi) > fi then Suc (resets s) else resets s) \<and>
            (resets s' = Suc (resets s) \<longleftrightarrow> (clock s - nextFrameTime s) + stall > 2 * fi)"
    if "\<not> captureFails env k"
    using that assms by (auto simp add: captureIteration_sent)
  have R: "captureIteration fi env s' = s'\<lparr>clock := clock s' + fi, iter := Suc (iter s')\<rparr>"
    if h: "\<not> captureFails env k \<and> resets s' = Suc (resets s) \<and> 0 < fi \<and> \<not> quitAt env (iter s')"
  proof -
    from h S have n: "nextFrameTime s' = clock s' + fi"
      by (auto split: if_splits)
    with h have "clock s' < nextFrameTime s'" by simp
    with h have "captureIteration fi env s' = s'\<lparr>clock := nextFrameTime s', iter := Suc (iter s')\<rparr>"
      by (intro captureIteration_sleep) simp_all
    with n show ?thesis by simp
  qed
  have starts: "captureStarts s' = captureStarts s @ [clock s]"
    using assms by (cases "captureFails env k") (simp_all add: captureIteration_sent captureIteration_failed)
  have N: "captureStarts (captureIteration fi env s') = captureStarts s @ [clock s, clock s']"
    if h: "\<not> captureFails env k \<and> resets s' = resets s \<and> nextFrameTime s + fi \<le> clock s' \<and>
           \<not> quitAt env (iter s')"
  proof -
    from h S have n: "nextFrameTime s' = nextFrameTime s + fi"
      by (auto split: if_splits)
    with h have due: "nextFrameTime s' \<le> clock s'" by simp
    have "captureStarts (captureIteration fi env s') = captureStarts s' @ [clock s']"
      using h due
      by (cases "captureFails env (length (captureStarts s'))")
         (simp_all add: captureIteration_sent captureIteration_failed)
    with starts show ?thesis by simp
  qed
  from F S R N show ?thesis by blast
qed

text \<open>
  The witness, with an interval of 100 ms. A first capture that stalls for 250 ms
  resets \<open>nextFrameTime\<close> to 350 ms, once, and the next iteration sleeps until then.
  A first capture that stalls for 200 ms causes no reset, and the next iteration
  captures at 200 ms. A first capture that fails after 10 ms moves \<open>nextFrameTime\<close>
  to 100 ms.
\<close>

theorem captureLoop_catch_up_witness:
  "\<not> quitAt (exEnv exLongStallTime) (iter exStart) \<and>
   nextFrameTime exStart \<le> clock exStart \<and>
   \<not> captureFails (exEnv exLongStallTime) 0 \<and>
   clock (captureIteration 100000000 (exEnv exLongStallTime) exStart) = 250000000 \<and>
   nextFrameTime (captureIteration 100000000 (exEnv exLongStallTime) exStart) = 350000000 \<and>
   resets (captureIteration 100000000 (exEnv exLongStallTime) exStart) = 1 \<and>
   captureStarts (captureIteration 100000000 (exEnv exLongStallTime)
                    (captureIteration 100000000 (exEnv exLongStallTime) exStart)) = [0] \<and>
   clock (captureIteration 100000000 (exEnv exLongStallTime)
            (captureIteration 100000000 (exEnv exLongStallTime) exStart)) = 350000000 \<and>
   resets (captureIteration 100000000 (exEnv exStallTime) exStart) = 0 \<and>
   nextFrameTime (captureIteration 100000000 (exEnv exStallTime) exStart) = 100000000 \<and>
   captureStarts (captureIteration 100000000 (exEnv exStallTime)
                    (captureIteration 100000000 (exEnv exStallTime) exStart)) = [0, 200000000] \<and>
   captureFails exFailEnv 0 \<and>
   nextFrameTime (captureIteration 100000000 exFailEnv exStart) = 100000000 \<and>
   resets (captureIteration 100000000 exFailEnv exStart) = 0"
proof -
  let ?env = "exEnv exLongStallTime"
  let ?s' = "captureIteration 100000000 ?env exStart"
  have st: "nextFrameTime exStart \<le> clock exStart" "0 = length (captureStarts exStart)"
    "clock exStart = 0" "nextFrameTime exStart = 0" "resets exStart = 0"
    "captureStarts exStart = []"
    by (simp_all add: exStart_def)
  have h: "\<And>i. \<not> quitAt ?env i" "\<not> captureFails ?env 0"
    "250000000 = captureTime ?env 0 + sendTime ?env 0"
    by (simp_all add: exEnv_def never_def exLongStallTime_def noTime_def)
  from captureLoop_catch_up[OF h(1) st(1) st(2) h(3) refl, of 100000000] h st
  have a: "clock ?s' = 250000000" "nextFrameTime ?s' = 350000000" "resets ?s' = 1"
    "captureIteration 100000000 ?env ?s' = ?s'\<lparr>clock := clock ?s' + 100000000, iter := Suc (iter ?s')\<rparr>"
    by simp_all
  have a': "captureStarts ?s' = [0]"
    using h st by (simp add: captureIteration_sent)
  let ?env2 = "exEnv exStallTime"
  let ?t' = "captureIteration 100000000 ?env2 exStart"
  have h2: "\<And>i. \<not> quitAt ?env2 i" "\<not> captureFails ?env2 0"
    "200000000 = captureTime ?env2 0 + sendTime ?env2 0"
    by (simp_all add: exEnv_def never_def exStallTime_def noTime_def)
  from captureLoop_catch_up[OF h2(1) st(1) st(2) h2(3) refl, of 100000000] h2 st
  have b: "resets ?t' = 0" "nextFrameTime ?t' = 100000000" "clock ?t' = 200000000"
    by simp_all
  from captureLoop_catch_up[OF h2(1) st(1) st(2) h2(3) refl, of 100000000] h2 st b
  have b': "captureStarts (captureIteration 100000000 ?env2 ?t') = [0, 200000000]"
    by simp
  have h3: "\<And>i. \<not> quitAt exFailEnv i" "captureFails exFailEnv 0"
    "10000000 = captureTime exFailEnv 0 + sendTime exFailEnv 0"
    by (simp_all add: exFailEnv_def never_def atOnce_def shortTime_def noTime_def)
  from captureLoop_catch_up[OF h3(1) st(1) st(2) h3(3) refl, of 100000000] h3 st
  have c: "nextFrameTime (captureIteration 100000000 exFailEnv exStart) = 100000000"
    "resets (captureIteration 100000000 exFailEnv exStart) = 0"
    by simp_all
  from a a' b b' c h h3 st show ?thesis by simp
qed

text \<open>
  Claim C3 as stated fails: with an interval of 100 ms and a single stall of 200 ms,
  twice the interval, no reset occurs in the six iterations that follow, and two
  captures follow the stalled one back to back, at 200 ms and at 210 ms.
\<close>

theorem captureLoop_stall_without_reset_counterexample:
  "frameIntervalOf (exConfig\<lparr>TargetFPS := 10\<rparr>) = 100000000 \<and>
   captureTime (exEnv exStallTime) 0 = 200000000 \<and>
   resets (captureLoop 6 (exConfig\<lparr>TargetFPS := 10\<rparr>) (exEnv exStallTime) 0) = 0 \<and>
   captureStarts (captureLoop 6 (exConfig\<lparr>TargetFPS := 10\<rparr>) (exEnv exStallTime) 0)
     = [0, 200000000, 210000000, 300000000]"
  by (simp add: captureLoop_def frameIntervalOf_def Second_def exConfig_def exEnv_def
        exStallTime_def noTime_def never_def captureIteration_def Let_def numeral_eq_Suc)

end
